theory Spec2Isabelle
  imports Main
begin

section \<open>Python values\<close>

text \<open>
  A Python 3 \<^verbatim>\<open>str\<close> is a sequence of Unicode code points, so a string is a list of
  code points here; \<open>u\<close> reads an ASCII literal of the source. The values the parsers
  handle (captured text, integers, decoded JSON) are of one dynamic type.
\<close>

type_synonym ustr = "nat list"

definition u :: "string \<Rightarrow> ustr" where
  "u s = map of_char s"

datatype pyval =
    PNone
  | PBool bool
  | PInt int
  | PFloat ustr
  | PStr ustr
  | PList "pyval list"
  | PDict "(ustr \<times> pyval) list"

datatype error =
    NotImplementedError
  | ValueError
  | TypeError
  | KeyError
  | IndexError
  | AttributeError
  | JSONDecodeError
  | ConfigurationError

text \<open>
  Modelled from the spec: the \<^verbatim>\<open>Violation\<close> class (\<^verbatim>\<open>lintly/violations.py\<close> is
  imported by the source and is not part of it). The spec's data model gives it the four
  fields line, column, code and message; the constructor stores what it is given.
\<close>

record violation =
  line :: pyval
  column :: pyval
  code :: pyval
  message :: pyval

subsection \<open>Dictionaries\<close>

text \<open>
  A \<^verbatim>\<open>dict\<close> keeps its keys in insertion order: an association list with distinct
  keys. \<^verbatim>\<open>d[k] = v\<close> replaces the value of a key in place and appends a new key;
  \<^verbatim>\<open>d[k].append(v)\<close> on a \<^verbatim>\<open>defaultdict(list)\<close> first creates the empty list of a
  missing key.
\<close>

type_synonym 'v pydict = "(pyval \<times> 'v) list"

fun dict_setitem :: "('k \<times> 'v) list \<Rightarrow> 'k \<Rightarrow> 'v \<Rightarrow> ('k \<times> 'v) list" where
  "dict_setitem [] k v = [(k, v)]"
| "dict_setitem ((k', v') # d) k v =
     (if k' = k then (k, v) # d else (k', v') # dict_setitem d k v)"

definition dict_get :: "('k \<times> 'v) list \<Rightarrow> 'k \<Rightarrow> 'v option" where
  "dict_get d k = map_of d k"

definition defaultdict_append :: "('k \<times> 'v list) list \<Rightarrow> 'k \<Rightarrow> 'v \<Rightarrow> ('k \<times> 'v list) list" where
  "defaultdict_append d k v =
     dict_setitem d k ((case dict_get d k of None \<Rightarrow> [] | Some vs \<Rightarrow> vs) @ [v])"

subsection \<open>String methods\<close>

text \<open>
  \<^verbatim>\<open>str.isspace\<close> of one code point: the characters \<^verbatim>\<open>str.strip()\<close> removes and the
  class \<^verbatim>\<open>\s\<close> of a \<^verbatim>\<open>str\<close> pattern.
\<close>

definition isspace :: "nat \<Rightarrow> bool" where
  "isspace c \<longleftrightarrow>
     (9 \<le> c \<and> c \<le> 13) \<or> (28 \<le> c \<and> c \<le> 32) \<or> c = 133 \<or> c = 160 \<or> c = 5760 \<or>
     (8192 \<le> c \<and> c \<le> 8202) \<or> c = 8232 \<or> c = 8233 \<or> c = 8239 \<or> c = 8287 \<or> c = 12288"

definition lstrip :: "ustr \<Rightarrow> ustr" where
  "lstrip s = dropWhile isspace s"

definition rstrip :: "ustr \<Rightarrow> ustr" where
  "rstrip s = rev (dropWhile isspace (rev s))"

definition strip :: "ustr \<Rightarrow> ustr" where
  "strip s = rstrip (lstrip s)"

definition startswith :: "ustr \<Rightarrow> ustr \<Rightarrow> bool" where
  "startswith s p \<longleftrightarrow> take (length p) s = p"

definition endswith :: "ustr \<Rightarrow> ustr \<Rightarrow> bool" where
  "endswith s p \<longleftrightarrow> drop (length s - length p) s = p"

text \<open>
  \<^verbatim>\<open>str.splitlines()\<close>: a line ends at \<^verbatim>\<open>\n\<close>, \<^verbatim>\<open>\r\<close>, \<^verbatim>\<open>\r\n\<close>, \<^verbatim>\<open>\v\<close>, \<^verbatim>\<open>\f\<close>,
  \<^verbatim>\<open>\x1c\<close>, \<^verbatim>\<open>\x1d\<close>, \<^verbatim>\<open>\x1e\<close>, \<^verbatim>\<open>\x85\<close>, U+2028 or U+2029; the breaks are dropped,
  and a break at the very end opens no further line.
\<close>

definition islinebreak :: "nat \<Rightarrow> bool" where
  "islinebreak c \<longleftrightarrow>
     (10 \<le> c \<and> c \<le> 13) \<or> (28 \<le> c \<and> c \<le> 30) \<or> c = 133 \<or> c = 8232 \<or> c = 8233"

fun splitlines_from :: "ustr \<Rightarrow> ustr \<Rightarrow> ustr list" where
  "splitlines_from cur [] = (if cur = [] then [] else [cur])"
| "splitlines_from cur [c] =
     (if islinebreak c then [cur] else [cur @ [c]])"
| "splitlines_from cur (c # d # s) =
     (if c = 13 \<and> d = 10 then cur # splitlines_from [] s
      else if islinebreak c then cur # splitlines_from [] (d # s)
      else splitlines_from (cur @ [c]) (d # s))"

definition splitlines :: "ustr \<Rightarrow> ustr list" where
  "splitlines s = splitlines_from [] s"

text \<open>
  \<^verbatim>\<open>s.split(c)\<close> for a separator of one character, and \<^verbatim>\<open>c.join(xs)\<close>. The result of
  a split is never empty (\<open>py_split_nonempty\<close> below), so the last case of the inner
  \<open>case\<close> is never taken.
\<close>

fun py_split :: "nat \<Rightarrow> ustr \<Rightarrow> ustr list" where
  "py_split c [] = [[]]"
| "py_split c (x # s) =
     (if x = c then [] # py_split c s
      else (case py_split c s of r # rs \<Rightarrow> (x # r) # rs | [] \<Rightarrow> [[x]]))"

fun py_join :: "ustr \<Rightarrow> ustr list \<Rightarrow> ustr" where
  "py_join c [] = []"
| "py_join c [x] = x"
| "py_join c (x # y # xs) = x @ c @ py_join c (y # xs)"

subsection \<open>Character classes\<close>

text \<open>
  The tables of the Unicode character database (version 14.0.0) that \<^verbatim>\<open>re\<close> and
  \<^verbatim>\<open>int\<close> consult. A decimal digit (category Nd, the class \<^verbatim>\<open>\d\<close>) is one of ten
  consecutive code points that start at a zero of the first table, and its value is its
  distance from that zero. The second table lists the intervals of the class \<^verbatim>\<open>\w\<close>
  (alphanumeric characters and the underscore), in increasing order.
\<close>

definition decimal_zeros :: "nat list" where
  "decimal_zeros =
     [48, 1632, 1776, 1984, 2406, 2534, 2662, 2790, 2918, 3046, 3174, 3302, 3430, 3558,
      3664, 3792, 3872, 4160, 4240, 6112, 6160, 6470, 6608, 6784, 6800, 6992, 7088, 7232,
      7248, 42528, 43216, 43264, 43472, 43504, 43600, 44016, 65296, 66720, 68912, 69734,
      69872, 69942, 70096, 70384, 70736, 70864, 71248, 71360, 71472, 71904, 72016, 72784,
      73040, 73120, 92768, 92864, 93008, 120782, 120792, 120802, 120812, 120822, 123200,
      123632, 125264, 130032]"

fun decimal_in :: "nat list \<Rightarrow> nat \<Rightarrow> nat option" where
  "decimal_in [] c = None"
| "decimal_in (z # zs) c = (if z \<le> c \<and> c < z + 10 then Some (c - z) else decimal_in zs c)"

definition decimal :: "nat \<Rightarrow> nat option" where
  "decimal c = decimal_in decimal_zeros c"

definition word_ranges :: "(nat \<times> nat) list" where
  "word_ranges =
     [(48, 57), (65, 90), (95, 95), (97, 122), (170, 170), (178, 179), (181, 181), (185,
      186), (188, 190), (192, 214), (216, 246), (248, 705), (710, 721), (736, 740), (748,
      748), (750, 750), (880, 884), (886, 887), (890, 893), (895, 895), (902, 902), (904,
      906), (908, 908), (910, 929), (931, 1013), (1015, 1153), (1162, 1327), (1329, 1366),
      (1369, 1369), (1376, 1416), (1488, 1514), (1519, 1522), (1568, 1610), (1632, 1641),
      (1646, 1647), (1649, 1747), (1749, 1749), (1765, 1766), (1774, 1788), (1791, 1791),
      (1808, 1808), (1810, 1839), (1869, 1957), (1969, 1969), (1984, 2026), (2036, 2037),
      (2042, 2042), (2048, 2069), (2074, 2074), (2084, 2084), (2088, 2088), (2112, 2136),
      (2144, 2154), (2160, 2183), (2185, 2190), (2208, 2249), (2308, 2361), (2365, 2365),
      (2384, 2384), (2392, 2401), (2406, 2415), (2417, 2432), (2437, 2444), (2447, 2448),
      (2451, 2472), (2474, 2480), (2482, 2482), (2486, 2489), (2493, 2493), (2510, 2510),
      (2524, 2525), (2527, 2529), (2534, 2545), (2548, 2553), (2556, 2556), (2565, 2570),
      (2575, 2576), (2579, 2600), (2602, 2608), (2610, 2611), (2613, 2614), (2616, 2617),
      (2649, 2652), (2654, 2654), (2662, 2671), (2674, 2676), (2693, 2701), (2703, 2705),
      (2707, 2728), (2730, 2736), (2738, 2739), (2741, 2745), (2749, 2749), (2768, 2768),
      (2784, 2785), (2790, 2799), (2809, 2809), (2821, 2828), (2831, 2832), (2835, 2856),
      (2858, 2864), (2866, 2867), (2869, 2873), (2877, 2877), (2908, 2909), (2911, 2913),
      (2918, 2927), (2929, 2935), (2947, 2947), (2949, 2954), (2958, 2960), (2962, 2965),
      (2969, 2970), (2972, 2972), (2974, 2975), (2979, 2980), (2984, 2986), (2990, 3001),
      (3024, 3024), (3046, 3058), (3077, 3084), (3086, 3088), (3090, 3112), (3114, 3129),
      (3133, 3133), (3160, 3162), (3165, 3165), (3168, 3169), (3174, 3183), (3192, 3198),
      (3200, 3200), (3205, 3212), (3214, 3216), (3218, 3240), (3242, 3251), (3253, 3257),
      (3261, 3261), (3293, 3294), (3296, 3297), (3302, 3311), (3313, 3314), (3332, 3340),
      (3342, 3344), (3346, 3386), (3389, 3389), (3406, 3406), (3412, 3414), (3416, 3425),
      (3430, 3448), (3450, 3455), (3461, 3478), (3482, 3505), (3507, 3515), (3517, 3517),
      (3520, 3526), (3558, 3567), (3585, 3632), (3634, 3635), (3648, 3654), (3664, 3673),
      (3713, 3714), (3716, 3716), (3718, 3722), (3724, 3747), (3749, 3749), (3751, 3760),
      (3762, 3763), (3773, 3773), (3776, 3780), (3782, 3782), (3792, 3801), (3804, 3807),
      (3840, 3840), (3872, 3891), (3904, 3911), (3913, 3948), (3976, 3980), (4096, 4138),
      (4159, 4169), (4176, 4181), (4186, 4189), (4193, 4193), (4197, 4198), (4206, 4208),
      (4213, 4225), (4238, 4238), (4240, 4249), (4256, 4293), (4295, 4295), (4301, 4301),
      (4304, 4346), (4348, 4680), (4682, 4685), (4688, 4694), (4696, 4696), (4698, 4701),
      (4704, 4744), (4746, 4749), (4752, 4784), (4786, 4789), (4792, 4798), (4800, 4800),
      (4802, 4805), (4808, 4822), (4824, 4880), (4882, 4885), (4888, 4954), (4969, 4988),
      (4992, 5007), (5024, 5109), (5112, 5117), (5121, 5740), (5743, 5759), (5761, 5786),
      (5792, 5866), (5870, 5880), (5888, 5905), (5919, 5937), (5952, 5969), (5984, 5996),
      (5998, 6000), (6016, 6067), (6103, 6103), (6108, 6108), (6112, 6121), (6128, 6137),
      (6160, 6169), (6176, 6264), (6272, 6276), (6279, 6312), (6314, 6314), (6320, 6389),
      (6400, 6430), (6470, 6509), (6512, 6516), (6528, 6571), (6576, 6601), (6608, 6618),
      (6656, 6678), (6688, 6740), (6784, 6793), (6800, 6809), (6823, 6823), (6917, 6963),
      (6981, 6988), (6992, 7001), (7043, 7072), (7086, 7141), (7168, 7203), (7232, 7241),
      (7245, 7293), (7296, 7304), (7312, 7354), (7357, 7359), (7401, 7404), (7406, 7411),
      (7413, 7414), (7418, 7418), (7424, 7615), (7680, 7957), (7960, 7965), (7968, 8005),
      (8008, 8013), (8016, 8023), (8025, 8025), (8027, 8027), (8029, 8029), (8031, 8061),
      (8064, 8116), (8118, 8124), (8126, 8126), (8130, 8132), (8134, 8140), (8144, 8147),
      (8150, 8155), (8160, 8172), (8178, 8180), (8182, 8188), (8304, 8305), (8308, 8313),
      (8319, 8329), (8336, 8348), (8450, 8450), (8455, 8455), (8458, 8467), (8469, 8469),
      (8473, 8477), (8484, 8484), (8486, 8486), (8488, 8488), (8490, 8493), (8495, 8505),
      (8508, 8511), (8517, 8521), (8526, 8526), (8528, 8585), (9312, 9371), (9450, 9471),
      (10102, 10131), (11264, 11492), (11499, 11502), (11506, 11507), (11517, 11517),
      (11520, 11557), (11559, 11559), (11565, 11565), (11568, 11623), (11631, 11631),
      (11648, 11670), (11680, 11686), (11688, 11694), (11696, 11702), (11704, 11710),
      (11712, 11718), (11720, 11726), (11728, 11734), (11736, 11742), (11823, 11823),
      (12293, 12295), (12321, 12329), (12337, 12341), (12344, 12348), (12353, 12438),
      (12445, 12447), (12449, 12538), (12540, 12543), (12549, 12591), (12593, 12686),
      (12690, 12693), (12704, 12735), (12784, 12799), (12832, 12841), (12872, 12879),
      (12881, 12895), (12928, 12937), (12977, 12991), (13312, 19903), (19968, 42124),
      (42192, 42237), (42240, 42508), (42512, 42539), (42560, 42606), (42623, 42653),
      (42656, 42735), (42775, 42783), (42786, 42888), (42891, 42954), (42960, 42961),
      (42963, 42963), (42965, 42969), (42994, 43009), (43011, 43013), (43015, 43018),
      (43020, 43042), (43056, 43061), (43072, 43123), (43138, 43187), (43216, 43225),
      (43250, 43255), (43259, 43259), (43261, 43262), (43264, 43301), (43312, 43334),
      (43360, 43388), (43396, 43442), (43471, 43481), (43488, 43492), (43494, 43518),
      (43520, 43560), (43584, 43586), (43588, 43595), (43600, 43609), (43616, 43638),
      (43642, 43642), (43646, 43695), (43697, 43697), (43701, 43702), (43705, 43709),
      (43712, 43712), (43714, 43714), (43739, 43741), (43744, 43754), (43762, 43764),
      (43777, 43782), (43785, 43790), (43793, 43798), (43808, 43814), (43816, 43822),
      (43824, 43866), (43868, 43881), (43888, 44002), (44016, 44025), (44032, 55203),
      (55216, 55238), (55243, 55291), (63744, 64109), (64112, 64217), (64256, 64262),
      (64275, 64279), (64285, 64285), (64287, 64296), (64298, 64310), (64312, 64316),
      (64318, 64318), (64320, 64321), (64323, 64324), (64326, 64433), (64467, 64829),
      (64848, 64911), (64914, 64967), (65008, 65019), (65136, 65140), (65142, 65276),
      (65296, 65305), (65313, 65338), (65345, 65370), (65382, 65470), (65474, 65479),
      (65482, 65487), (65490, 65495), (65498, 65500), (65536, 65547), (65549, 65574),
      (65576, 65594), (65596, 65597), (65599, 65613), (65616, 65629), (65664, 65786),
      (65799, 65843), (65856, 65912), (65930, 65931), (66176, 66204), (66208, 66256),
      (66273, 66299), (66304, 66339), (66349, 66378), (66384, 66421), (66432, 66461),
      (66464, 66499), (66504, 66511), (66513, 66517), (66560, 66717), (66720, 66729),
      (66736, 66771), (66776, 66811), (66816, 66855), (66864, 66915), (66928, 66938),
      (66940, 66954), (66956, 66962), (66964, 66965), (66967, 66977), (66979, 66993),
      (66995, 67001), (67003, 67004), (67072, 67382), (67392, 67413), (67424, 67431),
      (67456, 67461), (67463, 67504), (67506, 67514), (67584, 67589), (67592, 67592),
      (67594, 67637), (67639, 67640), (67644, 67644), (67647, 67669), (67672, 67702),
      (67705, 67742), (67751, 67759), (67808, 67826), (67828, 67829), (67835, 67867),
      (67872, 67897), (67968, 68023), (68028, 68047), (68050, 68096), (68112, 68115),
      (68117, 68119), (68121, 68149), (68160, 68168), (68192, 68222), (68224, 68255),
      (68288, 68295), (68297, 68324), (68331, 68335), (68352, 68405), (68416, 68437),
      (68440, 68466), (68472, 68497), (68521, 68527), (68608, 68680), (68736, 68786),
      (68800, 68850), (68858, 68899), (68912, 68921), (69216, 69246), (69248, 69289),
      (69296, 69297), (69376, 69415), (69424, 69445), (69457, 69460), (69488, 69505),
      (69552, 69579), (69600, 69622), (69635, 69687), (69714, 69743), (69745, 69746),
      (69749, 69749), (69763, 69807), (69840, 69864), (69872, 69881), (69891, 69926),
      (69942, 69951), (69956, 69956), (69959, 69959), (69968, 70002), (70006, 70006),
      (70019, 70066), (70081, 70084), (70096, 70106), (70108, 70108), (70113, 70132),
      (70144, 70161), (70163, 70187), (70272, 70278), (70280, 70280), (70282, 70285),
      (70287, 70301), (70303, 70312), (70320, 70366), (70384, 70393), (70405, 70412),
      (70415, 70416), (70419, 70440), (70442, 70448), (70450, 70451), (70453, 70457),
      (70461, 70461), (70480, 70480), (70493, 70497), (70656, 70708), (70727, 70730),
      (70736, 70745), (70751, 70753), (70784, 70831), (70852, 70853), (70855, 70855),
      (70864, 70873), (71040, 71086), (71128, 71131), (71168, 71215), (71236, 71236),
      (71248, 71257), (71296, 71338), (71352, 71352), (71360, 71369), (71424, 71450),
      (71472, 71483), (71488, 71494), (71680, 71723), (71840, 71922), (71935, 71942),
      (71945, 71945), (71948, 71955), (71957, 71958), (71960, 71983), (71999, 71999),
      (72001, 72001), (72016, 72025), (72096, 72103), (72106, 72144), (72161, 72161),
      (72163, 72163), (72192, 72192), (72203, 72242), (72250, 72250), (72272, 72272),
      (72284, 72329), (72349, 72349), (72368, 72440), (72704, 72712), (72714, 72750),
      (72768, 72768), (72784, 72812), (72818, 72847), (72960, 72966), (72968, 72969),
      (72971, 73008), (73030, 73030), (73040, 73049), (73056, 73061), (73063, 73064),
      (73066, 73097), (73112, 73112), (73120, 73129), (73440, 73458), (73648, 73648),
      (73664, 73684), (73728, 74649), (74752, 74862), (74880, 75075), (77712, 77808),
      (77824, 78894), (82944, 83526), (92160, 92728), (92736, 92766), (92768, 92777),
      (92784, 92862), (92864, 92873), (92880, 92909), (92928, 92975), (92992, 92995),
      (93008, 93017), (93019, 93025), (93027, 93047), (93053, 93071), (93760, 93846),
      (93952, 94026), (94032, 94032), (94099, 94111), (94176, 94177), (94179, 94179),
      (94208, 100343), (100352, 101589), (101632, 101640), (110576, 110579), (110581,
      110587), (110589, 110590), (110592, 110882), (110928, 110930), (110948, 110951),
      (110960, 111355), (113664, 113770), (113776, 113788), (113792, 113800), (113808,
      113817), (119520, 119539), (119648, 119672), (119808, 119892), (119894, 119964),
      (119966, 119967), (119970, 119970), (119973, 119974), (119977, 119980), (119982,
      119993), (119995, 119995), (119997, 120003), (120005, 120069), (120071, 120074),
      (120077, 120084), (120086, 120092), (120094, 120121), (120123, 120126), (120128,
      120132), (120134, 120134), (120138, 120144), (120146, 120485), (120488, 120512),
      (120514, 120538), (120540, 120570), (120572, 120596), (120598, 120628), (120630,
      120654), (120656, 120686), (120688, 120712), (120714, 120744), (120746, 120770),
      (120772, 120779), (120782, 120831), (122624, 122654), (123136, 123180), (123191,
      123197), (123200, 123209), (123214, 123214), (123536, 123565), (123584, 123627),
      (123632, 123641), (124896, 124902), (124904, 124907), (124909, 124910), (124912,
      124926), (124928, 125124), (125127, 125135), (125184, 125251), (125259, 125259),
      (125264, 125273), (126065, 126123), (126125, 126127), (126129, 126132), (126209,
      126253), (126255, 126269), (126464, 126467), (126469, 126495), (126497, 126498),
      (126500, 126500), (126503, 126503), (126505, 126514), (126516, 126519), (126521,
      126521), (126523, 126523), (126530, 126530), (126535, 126535), (126537, 126537),
      (126539, 126539), (126541, 126543), (126545, 126546), (126548, 126548), (126551,
      126551), (126553, 126553), (126555, 126555), (126557, 126557), (126559, 126559),
      (126561, 126562), (126564, 126564), (126567, 126570), (126572, 126578), (126580,
      126583), (126585, 126588), (126590, 126590), (126592, 126601), (126603, 126619),
      (126625, 126627), (126629, 126633), (126635, 126651), (127232, 127244), (130032,
      130041), (131072, 173791), (173824, 177976), (177984, 178205), (178208, 183969),
      (183984, 191456), (194560, 195101), (196608, 201546)]"

fun in_ranges :: "(nat \<times> nat) list \<Rightarrow> nat \<Rightarrow> bool" where
  "in_ranges [] c = False"
| "in_ranges ((lo, hi) # rs) c = (if c < lo then False else if c \<le> hi then True else in_ranges rs c)"

definition isword :: "nat \<Rightarrow> bool" where
  "isword c = in_ranges word_ranges c"

subsection \<open>Regular expressions\<close>

text \<open>
  The patterns of the source, as syntax trees: the anchors \<^verbatim>\<open>^\<close> and \<^verbatim>\<open>$\<close>, literal text,
  one character of a class, the greedy repetitions \<^verbatim>\<open>*\<close> and \<^verbatim>\<open>+\<close> of a class (the
  source repeats nothing else), sequence, alternative, and numbered and named groups.
\<close>

datatype cclass = Any | Digit | Space | Word

fun cmatch :: "cclass \<Rightarrow> nat \<Rightarrow> bool" where
  "cmatch Any c = (c \<noteq> 10)"
| "cmatch Digit c = (decimal c \<noteq> None)"
| "cmatch Space c = isspace c"
| "cmatch Word c = isword c"

datatype regex =
    Bol
  | Eol
  | Lit ustr
  | Atom cclass
  | Star cclass
  | Plus cclass
  | Seq regex regex
  | Alt regex regex
  | Group regex
  | Named string regex

fun cat :: "regex list \<Rightarrow> regex" where
  "cat [] = Lit []"
| "cat [r] = r"
| "cat (r # rs) = Seq r (cat rs)"

fun group_names :: "regex \<Rightarrow> string list" where
  "group_names (Seq a b) = group_names a @ group_names b"
| "group_names (Alt a b) = group_names a @ group_names b"
| "group_names (Group r) = group_names r"
| "group_names (Named n r) = n # group_names r"
| "group_names r = []"

text \<open>
  A backtracking matcher tries the alternatives of a pattern in a fixed order (a greedy
  repetition the longest first) and returns the first complete match. \<open>run r st\<close> lists, in
  that order, every state in which \<open>r\<close> can end when started in \<open>st\<close>: the position, the
  text still to read and the text of the named groups matched so far. \<^verbatim>\<open>re.match\<close> starts
  at position 0 and takes the first.
\<close>

type_synonym groups = "string \<Rightarrow> ustr option"
type_synonym mstate = "nat \<times> ustr \<times> groups"

fun run :: "regex \<Rightarrow> mstate \<Rightarrow> mstate list" where
  "run Bol (i, s, g) = (if i = 0 then [(i, s, g)] else [])"
| "run Eol (i, s, g) = (if s = [] \<or> s = [10] then [(i, s, g)] else [])"
| "run (Lit t) (i, s, g) =
     (if take (length t) s = t then [(i + length t, drop (length t) s, g)] else [])"
| "run (Atom c) (i, s, g) =
     (case s of [] \<Rightarrow> [] | x # s' \<Rightarrow> if cmatch c x then [(i + 1, s', g)] else [])"
| "run (Star c) (i, s, g) =
     map (\<lambda>k. (i + k, drop k s, g)) (rev [0 ..< Suc (length (takeWhile (cmatch c) s))])"
| "run (Plus c) (i, s, g) =
     map (\<lambda>k. (i + k, drop k s, g)) (rev [1 ..< Suc (length (takeWhile (cmatch c) s))])"
| "run (Seq a b) st = concat (map (run b) (run a st))"
| "run (Alt a b) st = run a st @ run b st"
| "run (Group r) st = run r st"
| "run (Named n r) (i, s, g) =
     map (\<lambda>(j, s', g'). (j, s', g'(n \<mapsto> take (j - i) s))) (run r (i, s, g))"

definition re_match :: "regex \<Rightarrow> ustr \<Rightarrow> groups option" where
  "re_match r s = (case run r (0, s, Map.empty) of [] \<Rightarrow> None | (j, s', g) # _ \<Rightarrow> Some g)"

text \<open>
  \<^verbatim>\<open>match.group(name)\<close>: \<^verbatim>\<open>IndexError\<close> when the pattern has no such group, \<^verbatim>\<open>None\<close>
  when the group took no part in the match.
\<close>

definition match_group :: "regex \<Rightarrow> groups \<Rightarrow> string \<Rightarrow> error + ustr option" where
  "match_group r g n = (if n \<in> set (group_names r) then Inr (g n) else Inl IndexError)"

definition pystr :: "ustr option \<Rightarrow> pyval" where
  "pystr x = (case x of None \<Rightarrow> PNone | Some s \<Rightarrow> PStr s)"

text \<open>
  \<^verbatim>\<open>int(x)\<close> for what a group gives: \<^verbatim>\<open>TypeError\<close> for \<^verbatim>\<open>None\<close>; for a string,
  surrounding whitespace is dropped, one sign is allowed, and the digits are decimal
  digits of any script, with single underscores allowed between them; anything else is a
  \<^verbatim>\<open>ValueError\<close>, and so is a number of more digits than the interpreter's default
  limit of 4300 (\<^verbatim>\<open>sys.get_int_max_str_digits()\<close>).
\<close>

fun int_digits :: "nat \<Rightarrow> ustr \<Rightarrow> nat option" where
  "int_digits acc [] = Some acc"
| "int_digits acc (c # s) =
     (if c = 95 then
        (case s of
           [] \<Rightarrow> None
         | d # s' \<Rightarrow>
             (case decimal d of None \<Rightarrow> None | Some v \<Rightarrow> int_digits (10 * acc + v) s'))
      else
        (case decimal c of None \<Rightarrow> None | Some v \<Rightarrow> int_digits (10 * acc + v) s))"

definition int_unsigned :: "ustr \<Rightarrow> nat option" where
  "int_unsigned s =
     (if 4300 < length (filter (\<lambda>c. c \<noteq> 95) s) then None
      else
        (case s of
           [] \<Rightarrow> None
         | c # s' \<Rightarrow> (case decimal c of None \<Rightarrow> None | Some v \<Rightarrow> int_digits v s')))"

definition py_int :: "ustr option \<Rightarrow> error + int" where
  "py_int x =
     (case x of
        None \<Rightarrow> Inl TypeError
      | Some s \<Rightarrow>
          (case strip s of
             [] \<Rightarrow> Inl ValueError
           | c # t \<Rightarrow>
               (if c = 45 then
                  (case int_unsigned t of None \<Rightarrow> Inl ValueError | Some n \<Rightarrow> Inr (- int n))
                else if c = 43 then
                  (case int_unsigned t of None \<Rightarrow> Inl ValueError | Some n \<Rightarrow> Inr (int n))
                else
                  (case int_unsigned (c # t) of
                     None \<Rightarrow> Inl ValueError
                   | Some n \<Rightarrow> Inr (int n)))))"

section \<open>Path normalisation\<close>

text \<open>
  \<^verbatim>\<open>os.path\<close> of a POSIX system. The working directory \<open>cwd\<close> is what
  \<^verbatim>\<open>os.getcwd()\<close> returns, and \<^verbatim>\<open>_get_working_dir\<close> returns the same.
\<close>

definition sep :: ustr where "sep = [47]"
definition curdir :: ustr where "curdir = [46]"
definition pardir :: ustr where "pardir = [46, 46]"

definition normpath_step :: "nat \<Rightarrow> ustr list \<Rightarrow> ustr \<Rightarrow> ustr list" where
  "normpath_step initial_slashes new_comps cp =
     (if cp = [] \<or> cp = curdir then new_comps
      else if cp \<noteq> pardir \<or> (initial_slashes = 0 \<and> new_comps = []) \<or>
              (new_comps \<noteq> [] \<and> last new_comps = pardir)
        then new_comps @ [cp]
      else if new_comps \<noteq> [] then butlast new_comps
      else new_comps)"

text \<open>
  POSIX allows one or two initial slashes, and treats three or more as a single slash.
\<close>

definition initial_slashes :: "ustr \<Rightarrow> nat" where
  "initial_slashes path =
     (if startswith path sep then
        (if startswith path (sep @ sep) \<and> \<not> startswith path (sep @ sep @ sep) then 2 else 1)
      else 0)"

definition normpath :: "ustr \<Rightarrow> ustr" where
  "normpath path =
     (if path = [] then curdir
      else
        let comps = foldl (normpath_step (initial_slashes path)) [] (py_split 47 path);
            path' = replicate (initial_slashes path) 47 @ py_join sep comps
        in if path' = [] then curdir else path')"

definition isabs :: "ustr \<Rightarrow> bool" where
  "isabs s = startswith s sep"

fun posix_join :: "ustr \<Rightarrow> ustr list \<Rightarrow> ustr" where
  "posix_join path [] = path"
| "posix_join path (b # p) =
     posix_join
       (if startswith b sep then b
        else if path = [] \<or> endswith path sep then path @ b
        else path @ sep @ b) p"

definition abspath :: "ustr \<Rightarrow> ustr \<Rightarrow> ustr" where
  "abspath cwd path =
     normpath (if \<not> isabs path then posix_join cwd [path] else path)"

text \<open>
  \<^verbatim>\<open>commonprefix\<close> of two lists of components: their longest common prefix (the
  library compares the smaller with the larger of the two, position by position).
\<close>

fun commonprefix :: "'a list \<Rightarrow> 'a list \<Rightarrow> 'a list" where
  "commonprefix (x # xs) (y # ys) = (if x = y then x # commonprefix xs ys else [])"
| "commonprefix xs ys = []"

definition relpath :: "ustr \<Rightarrow> ustr \<Rightarrow> ustr \<Rightarrow> error + ustr" where
  "relpath cwd path start =
     (if path = [] then Inl ValueError
      else
        let start_list = filter (\<lambda>x. x \<noteq> []) (py_split 47 (abspath cwd start));
            path_list = filter (\<lambda>x. x \<noteq> []) (py_split 47 (abspath cwd path));
            i = length (commonprefix start_list path_list);
            rel_list = replicate (length start_list - i) pardir @ drop i path_list
        in if rel_list = [] then Inr curdir
           else Inr (posix_join (hd rel_list) (tl rel_list)))"

text \<open>
  \<^verbatim>\<open>BaseLintParser._normalize_path\<close>. \<^verbatim>\<open>os.path.normpath\<close> raises \<^verbatim>\<open>TypeError\<close> for
  an argument that is no string.
\<close>

text \<open>Names used in the proofs about paths.\<close>

definition clean :: "ustr list \<Rightarrow> bool" where
  "clean xs = list_all (\<lambda>x. x \<noteq> [] \<and> x \<noteq> curdir \<and> x \<noteq> pardir \<and> 47 \<notin> set x) xs"

definition rel_list :: "ustr list \<Rightarrow> ustr list \<Rightarrow> ustr list" where
  "rel_list start_list path_list =
     replicate (length start_list - length (commonprefix start_list path_list)) pardir @
     drop (length (commonprefix start_list path_list)) path_list"

definition normalize_path :: "ustr \<Rightarrow> pyval \<Rightarrow> error + ustr" where
  "normalize_path cwd path =
     (case path of
        PStr p \<Rightarrow> relpath cwd (normpath p) cwd
      | _ \<Rightarrow> Inl TypeError)"

section \<open>The parsers\<close>

subsection \<open>BlackParser\<close>

fun BlackParser_loop ::
    "ustr \<Rightarrow> violation list pydict \<Rightarrow> ustr list \<Rightarrow> error + violation list pydict" where
  "BlackParser_loop cwd violations [] = Inr violations"
| "BlackParser_loop cwd violations (ln # lns) =
     (if startswith ln (u ''would reformat '') then
        (case normalize_path cwd (PStr (last (py_split 32 ln))) of
           Inl e \<Rightarrow> Inl e
         | Inr path \<Rightarrow>
             BlackParser_loop cwd
               (dict_setitem violations (PStr path)
                  [\<lparr>line = PInt 1, column = PInt 1, code = PStr (u ''`black`''),
                    message = PStr (u ''this file needs to be formatted'')\<rparr>])
               lns)
      else BlackParser_loop cwd violations lns)"

definition BlackParser_parse_violations :: "ustr \<Rightarrow> ustr \<Rightarrow> error + violation list pydict" where
  "BlackParser_parse_violations cwd output =
     BlackParser_loop cwd [] (splitlines (strip output))"

subsection \<open>LineRegexParser\<close>

fun LineRegexParser_loop ::
    "regex \<Rightarrow> ustr \<Rightarrow> violation list pydict \<Rightarrow> ustr list \<Rightarrow> error + violation list pydict" where
  "LineRegexParser_loop regex cwd violations [] = Inr violations"
| "LineRegexParser_loop regex cwd violations (ln # lns) =
     (case re_match regex (strip ln) of
        None \<Rightarrow> LineRegexParser_loop regex cwd violations lns
      | Some m \<Rightarrow>
          (case match_group regex m ''path'' of Inl e \<Rightarrow> Inl e | Inr gpath \<Rightarrow>
          (case normalize_path cwd (pystr gpath) of Inl e \<Rightarrow> Inl e | Inr path \<Rightarrow>
          (case match_group regex m ''line'' of Inl e \<Rightarrow> Inl e | Inr gline \<Rightarrow>
          (case py_int gline of Inl e \<Rightarrow> Inl e | Inr l \<Rightarrow>
          (case match_group regex m ''column'' of Inl e \<Rightarrow> Inl e | Inr gcolumn \<Rightarrow>
          (case py_int gcolumn of Inl e \<Rightarrow> Inl e | Inr c \<Rightarrow>
          (case match_group regex m ''code'' of Inl e \<Rightarrow> Inl e | Inr gcode \<Rightarrow>
          (case match_group regex m ''message'' of Inl e \<Rightarrow> Inl e | Inr gmessage \<Rightarrow>
             LineRegexParser_loop regex cwd
               (defaultdict_append violations (PStr path)
                  \<lparr>line = PInt l, column = PInt c, code = pystr gcode,
                   message = pystr gmessage\<rparr>)
               lns)))))))))"

definition LineRegexParser_parse_violations ::
    "regex \<Rightarrow> ustr \<Rightarrow> ustr \<Rightarrow> error + violation list pydict" where
  "LineRegexParser_parse_violations regex cwd output =
     LineRegexParser_loop regex cwd [] (splitlines (strip output))"

text \<open>
  The two patterns the registry gives to a \<^verbatim>\<open>LineRegexParser\<close>:
  \<^verbatim>\<open>^(?P<path>.*):(?P<line>\d+):(?P<column>\d+): (?P<code>\w\d+) (?P<message>.*)$\<close> and
  \<^verbatim>\<open>^(?P<path>.*):(?P<line>\d+):(?P<column>\d+): (?P<message>.+) \[(Warning|Error)/(?P<code>.+)\]$\<close>.
\<close>

definition DEFAULT_regex :: regex where
  "DEFAULT_regex =
     cat [Bol, Named ''path'' (Star Any), Lit (u '':''), Named ''line'' (Plus Digit),
          Lit (u '':''), Named ''column'' (Plus Digit), Lit (u '': ''),
          Named ''code'' (Seq (Atom Word) (Plus Digit)), Lit (u '' ''),
          Named ''message'' (Star Any), Eol]"

definition eslint_unix_regex :: regex where
  "eslint_unix_regex =
     cat [Bol, Named ''path'' (Star Any), Lit (u '':''), Named ''line'' (Plus Digit),
          Lit (u '':''), Named ''column'' (Plus Digit), Lit (u '': ''),
          Named ''message'' (Plus Any), Lit (u '' [''),
          Group (Alt (Lit (u ''Warning'')) (Lit (u ''Error''))), Lit (u ''/''),
          Named ''code'' (Plus Any), Lit (u '']''), Eol]"

subsection \<open>ESLintParser and StylelintParser\<close>

text \<open>
  The patterns of the indented lines:
  \<^verbatim>\<open>^(?P<line>\d+):(?P<column>\d+)\s+(error|warning)\s+(?P<message>.*)\s+(?P<code>.+)$\<close> and
  \<^verbatim>\<open>^(?P<line>\d+):(?P<column>\d+)\s+X\s+(?P<message>.*)\s+(?P<code>.+)$\<close>, where X is the
  heavy multiplication sign U+2716 (code point 10006), which also starts the last line of
  ESLint's report.
\<close>

definition eslint_regex :: regex where
  "eslint_regex =
     cat [Bol, Named ''line'' (Plus Digit), Lit (u '':''), Named ''column'' (Plus Digit),
          Plus Space, Group (Alt (Lit (u ''error'')) (Lit (u ''warning''))), Plus Space,
          Named ''message'' (Star Any), Plus Space, Named ''code'' (Plus Any), Eol]"

definition stylelint_regex :: regex where
  "stylelint_regex =
     cat [Bol, Named ''line'' (Plus Digit), Lit (u '':''), Named ''column'' (Plus Digit),
          Plus Space, Lit [10006], Plus Space,
          Named ''message'' (Star Any), Plus Space, Named ''code'' (Plus Any), Eol]"

text \<open>
  The body of the branch for an indented line, the same in both parsers but for the
  pattern. \<^verbatim>\<open>re.match\<close> returns \<^verbatim>\<open>None\<close> when the line does not match, and
  \<^verbatim>\<open>match.group\<close> on \<^verbatim>\<open>None\<close> raises \<^verbatim>\<open>AttributeError\<close>, as \<^verbatim>\<open>.strip()\<close> on a group
  that is \<^verbatim>\<open>None\<close> does.
\<close>

definition violation_line ::
    "regex \<Rightarrow> pyval \<Rightarrow> violation list pydict \<Rightarrow> ustr \<Rightarrow> error + violation list pydict" where
  "violation_line regex current_file violations ln =
     (case re_match regex (strip ln) of
        None \<Rightarrow> Inl AttributeError
      | Some m \<Rightarrow>
          (case match_group regex m ''line'' of Inl e \<Rightarrow> Inl e | Inr gline \<Rightarrow>
          (case py_int gline of Inl e \<Rightarrow> Inl e | Inr l \<Rightarrow>
          (case match_group regex m ''column'' of Inl e \<Rightarrow> Inl e | Inr gcolumn \<Rightarrow>
          (case py_int gcolumn of Inl e \<Rightarrow> Inl e | Inr c \<Rightarrow>
          (case match_group regex m ''code'' of Inl e \<Rightarrow> Inl e | Inr gcode \<Rightarrow>
          (case gcode of None \<Rightarrow> Inl AttributeError | Some vcode \<Rightarrow>
          (case match_group regex m ''message'' of Inl e \<Rightarrow> Inl e | Inr gmessage \<Rightarrow>
          (case gmessage of None \<Rightarrow> Inl AttributeError | Some vmessage \<Rightarrow>
             Inr (defaultdict_append violations current_file
                    \<lparr>line = PInt l, column = PInt c, code = PStr (strip vcode),
                     message = PStr (strip vmessage)\<rparr>))))))))))"

fun ESLintParser_loop ::
    "ustr \<Rightarrow> pyval \<Rightarrow> violation list pydict \<Rightarrow> ustr list \<Rightarrow> error + violation list pydict" where
  "ESLintParser_loop cwd current_file violations [] = Inr violations"
| "ESLintParser_loop cwd current_file violations (ln # lns) =
     (if startswith ln (u '' '') then
        (case violation_line eslint_regex current_file violations ln of
           Inl e \<Rightarrow> Inl e
         | Inr violations' \<Rightarrow> ESLintParser_loop cwd current_file violations' lns)
      else if startswith ln [10006] then Inr violations
      else
        (case normalize_path cwd (PStr ln) of
           Inl e \<Rightarrow> Inl e
         | Inr path \<Rightarrow> ESLintParser_loop cwd (PStr path) violations lns))"

definition ESLintParser_parse_violations :: "ustr \<Rightarrow> ustr \<Rightarrow> error + violation list pydict" where
  "ESLintParser_parse_violations cwd output =
     ESLintParser_loop cwd PNone [] (splitlines (strip output))"

fun StylelintParser_loop ::
    "ustr \<Rightarrow> pyval \<Rightarrow> violation list pydict \<Rightarrow> ustr list \<Rightarrow> error + violation list pydict" where
  "StylelintParser_loop cwd current_file violations [] = Inr violations"
| "StylelintParser_loop cwd current_file violations (ln # lns) =
     (if startswith ln (u '' '') then
        (case violation_line stylelint_regex current_file violations ln of
           Inl e \<Rightarrow> Inl e
         | Inr violations' \<Rightarrow> StylelintParser_loop cwd current_file violations' lns)
      else
        (case normalize_path cwd (PStr ln) of
           Inl e \<Rightarrow> Inl e
         | Inr path \<Rightarrow> StylelintParser_loop cwd (PStr path) violations lns))"

definition StylelintParser_parse_violations :: "ustr \<Rightarrow> ustr \<Rightarrow> error + violation list pydict" where
  "StylelintParser_parse_violations cwd output =
     StylelintParser_loop cwd PNone [] (splitlines (strip output))"

text \<open>The number that a string of decimal digits denotes.\<close>

definition decimal_value :: "ustr \<Rightarrow> nat" where
  "decimal_value t = foldl (\<lambda>a c. 10 * a + the (decimal c)) 0 t"

subsection \<open>The registry\<close>

text \<open>The parser objects of the table \<^verbatim>\<open>PARSERS\<close>, and the table, in the order of the source.\<close>

datatype parser =
    LineRegexParser regex
  | PylintJSONParser
  | ESLintParser
  | StylelintParser
  | BlackParser
  | CfnLintParser
  | BanditJSONParser
  | CfnNagParser
  | GitLeaksParser
  | HadolintParser

definition DEFAULT_PARSER :: parser where
  "DEFAULT_PARSER = LineRegexParser DEFAULT_regex"

definition PARSERS :: "(ustr \<times> parser) list" where
  "PARSERS =
     [(u ''unix'', DEFAULT_PARSER),
      (u ''flake8'', DEFAULT_PARSER),
      (u ''pylint-json'', PylintJSONParser),
      (u ''eslint'', ESLintParser),
      (u ''eslint-unix'', LineRegexParser eslint_unix_regex),
      (u ''stylelint'', StylelintParser),
      (u ''black'', BlackParser),
      (u ''cfn-lint'', CfnLintParser),
      (u ''bandit-json'', BanditJSONParser),
      (u ''cfn-nag'', CfnNagParser),
      (u ''gitleaks'', GitLeaksParser),
      (u ''hadolint'', HadolintParser)]"

text \<open>
  Modelled from the spec: the resolution of a format key. The source holds the table
  only; the code that looks a key up in it is in another module of the package. The spec
  (4.5): \<^verbatim>\<open>resolve(format_key) -> Extractor\<close> is a case-sensitive exact string match
  against the table, an unknown key fails with a "format not recognized" error, a
  configuration error raised before any output parsing is attempted. \<open>resolve_and_parse\<close> is the
  control flow of the spec's overview: the registry resolves the extractor, then the
  extractor is invoked with the raw output (\<open>parse\<close> stands for the extractors'
  \<^verbatim>\<open>parse_violations\<close>).
\<close>

definition resolve :: "ustr \<Rightarrow> error + parser" where
  "resolve format_key =
     (case map_of PARSERS format_key of
        None \<Rightarrow> Inl ConfigurationError
      | Some extractor \<Rightarrow> Inr extractor)"

definition resolve_and_parse :: "(parser \<Rightarrow> ustr \<Rightarrow> error + 'a) \<Rightarrow> ustr \<Rightarrow> ustr \<Rightarrow> error + 'a" where
  "resolve_and_parse parse format_key output =
     (case resolve format_key of
        Inl e \<Rightarrow> Inl e
      | Inr extractor \<Rightarrow> parse extractor output)"

subsection \<open>JSON\<close>

text \<open>
  \<^verbatim>\<open>json.loads\<close> of a string, as the standard decoder does it: a scanner for the tokens
  and a parser for the grammar of values. An integer is decoded to \<^verbatim>\<open>int\<close> and raises
  \<^verbatim>\<open>ValueError\<close> when it has more digits than the interpreter's default limit of 4300;
  a number with a fraction or an exponent, and the constants \<^verbatim>\<open>NaN\<close>, \<^verbatim>\<open>Infinity\<close> and
  \<^verbatim>\<open>-Infinity\<close>, are floats, kept here as their text. Every other failure is a
  \<^verbatim>\<open>JSONDecodeError\<close>. (The interpreter's limit on the depth of nesting is not
  modelled.)
\<close>

datatype token =
    TLBrace | TRBrace | TLBrack | TRBrack | TComma | TColon
  | TVal pyval
  | TErr error

definition json_ws :: "nat \<Rightarrow> bool" where
  "json_ws c \<longleftrightarrow> c = 32 \<or> c = 9 \<or> c = 10 \<or> c = 13"

definition isdig :: "nat \<Rightarrow> bool" where
  "isdig c \<longleftrightarrow> 48 \<le> c \<and> c \<le> 57"

definition isnumchar :: "nat \<Rightarrow> bool" where
  "isnumchar c \<longleftrightarrow> isdig c \<or> c = 45 \<or> c = 43 \<or> c = 46 \<or> c = 101 \<or> c = 69"

definition digits_value :: "ustr \<Rightarrow> nat" where
  "digits_value ds = foldl (\<lambda>a c. 10 * a + (c - 48)) 0 ds"

text \<open>
  The text after the integer part of a number: an optional fraction \<^verbatim>\<open>.d+\<close> and an
  optional exponent \<^verbatim>\<open>[eE][-+]?d+\<close>.
\<close>

definition exponent_ok :: "ustr \<Rightarrow> bool" where
  "exponent_ok r \<longleftrightarrow>
     (case r of
        [] \<Rightarrow> False
      | e # r' \<Rightarrow>
          (e = 101 \<or> e = 69) \<and>
          (case r' of
             [] \<Rightarrow> False
           | s # ds \<Rightarrow>
               if s = 45 \<or> s = 43 then ds \<noteq> [] \<and> list_all isdig ds
               else list_all isdig (s # ds)))"

definition fraction_ok :: "ustr \<Rightarrow> bool" where
  "fraction_ok r \<longleftrightarrow>
     (case r of
        [] \<Rightarrow> False
      | p # r' \<Rightarrow>
          if p = 46 then
            takeWhile isdig r' \<noteq> [] \<and>
            (dropWhile isdig r' = [] \<or> exponent_ok (dropWhile isdig r'))
          else exponent_ok r)"

definition number_token :: "ustr \<Rightarrow> error + pyval" where
  "number_token t =
     (let neg = (t \<noteq> [] \<and> hd t = 45);
          t' = (if neg then tl t else t);
          ds = takeWhile isdig t';
          r = dropWhile isdig t'
      in if ds = [] \<or> (hd ds = 48 \<and> length ds > 1) then Inl JSONDecodeError
         else if r = [] then
           (if length ds > 4300 then Inl ValueError
            else Inr (PInt (if neg then - int (digits_value ds) else int (digits_value ds))))
         else if fraction_ok r then Inr (PFloat t)
         else Inl JSONDecodeError)"

text \<open>
  A string: \<open>str_end\<close> finds the closing quote (a backslash takes the next character
  with it), \<open>decode_str\<close> decodes the text before it. A control character is refused;
  \<^verbatim>\<open>\uXXXX\<close> gives the code point, and a high surrogate followed by the escape of a low
  one gives the one character of the pair.
\<close>

fun str_end :: "ustr \<Rightarrow> nat option" where
  "str_end [] = None"
| "str_end [c] = (if c = 34 then Some 0 else None)"
| "str_end (c # d # cs) =
     (if c = 34 then Some 0
      else if c = 92 then map_option (\<lambda>n. n + 2) (str_end cs)
      else map_option Suc (str_end (d # cs)))"

definition hexval :: "nat \<Rightarrow> nat option" where
  "hexval c =
     (if 48 \<le> c \<and> c \<le> 57 then Some (c - 48)
      else if 97 \<le> c \<and> c \<le> 102 then Some (c - 87)
      else if 65 \<le> c \<and> c \<le> 70 then Some (c - 55)
      else None)"

definition hex4 :: "ustr \<Rightarrow> nat option" where
  "hex4 t =
     (case map hexval t of
        [Some a, Some b, Some c, Some d] \<Rightarrow> Some (((a * 16 + b) * 16 + c) * 16 + d)
      | _ \<Rightarrow> None)"

definition escape_char :: "nat \<Rightarrow> nat option" where
  "escape_char e =
     (if e = 34 \<or> e = 92 \<or> e = 47 then Some e
      else if e = 98 then Some 8
      else if e = 102 then Some 12
      else if e = 110 then Some 10
      else if e = 114 then Some 13
      else if e = 116 then Some 9
      else None)"

function decode_str :: "ustr \<Rightarrow> ustr option" where
  "decode_str [] = Some []"
| "decode_str (c # cs) =
     (if c = 92 then
        (case cs of
           [] \<Rightarrow> None
         | e # es \<Rightarrow>
             if e = 117 then
               (case hex4 (take 4 es) of
                  None \<Rightarrow> None
                | Some h \<Rightarrow>
                    if 55296 \<le> h \<and> h \<le> 56319 \<and> take 2 (drop 4 es) = [92, 117] then
                      (case hex4 (take 4 (drop 6 es)) of
                         None \<Rightarrow> None
                       | Some l \<Rightarrow>
                           if 56320 \<le> l \<and> l \<le> 57343 then
                             map_option ((#) (65536 + (h - 55296) * 1024 + (l - 56320)))
                               (decode_str (drop 10 es))
                           else map_option ((#) h) (decode_str (drop 4 es)))
                    else map_option ((#) h) (decode_str (drop 4 es)))
             else
               (case escape_char e of
                  None \<Rightarrow> None
                | Some x \<Rightarrow> map_option ((#) x) (decode_str es)))
      else if c < 32 then None
      else map_option ((#) c) (decode_str cs))"
  by pat_completeness auto
termination
  by (relation "measure length") auto

function lex :: "ustr \<Rightarrow> token list" where
  "lex [] = []"
| "lex (c # cs) =
     (if json_ws c then lex cs
      else if c = 123 then TLBrace # lex cs
      else if c = 125 then TRBrace # lex cs
      else if c = 91 then TLBrack # lex cs
      else if c = 93 then TRBrack # lex cs
      else if c = 44 then TComma # lex cs
      else if c = 58 then TColon # lex cs
      else if c = 34 then
        (case str_end cs of
           None \<Rightarrow> [TErr JSONDecodeError]
         | Some n \<Rightarrow>
             (case decode_str (take n cs) of
                None \<Rightarrow> [TErr JSONDecodeError]
              | Some v \<Rightarrow> TVal (PStr v) # lex (drop (Suc n) cs)))
      else if startswith (c # cs) (u ''null'') then TVal PNone # lex (drop 3 cs)
      else if startswith (c # cs) (u ''true'') then TVal (PBool True) # lex (drop 3 cs)
      else if startswith (c # cs) (u ''false'') then TVal (PBool False) # lex (drop 4 cs)
      else if startswith (c # cs) (u ''NaN'') then TVal (PFloat (u ''NaN'')) # lex (drop 2 cs)
      else if startswith (c # cs) (u ''Infinity'') then
        TVal (PFloat (u ''Infinity'')) # lex (drop 7 cs)
      else if startswith (c # cs) (u ''-Infinity'') then
        TVal (PFloat (u ''-Infinity'')) # lex (drop 8 cs)
      else if isnumchar c then
        (case number_token (c # takeWhile isnumchar cs) of
           Inl e \<Rightarrow> [TErr e]
         | Inr v \<Rightarrow> TVal v # lex (dropWhile isnumchar cs))
      else [TErr JSONDecodeError])"
  by pat_completeness auto
termination
  by (relation "measure length") (auto intro: le_imp_less_Suc length_dropWhile_le)

text \<open>
  The parser keeps the containers that are still open. A duplicate key of an object keeps
  its first position and takes the last value, as \<^verbatim>\<open>dict\<close> does. The error of a bad
  token is raised only where a value is expected; anywhere else the text is already
  refused for its syntax.
\<close>

datatype frame = InArr "pyval list" | InObj "(ustr \<times> pyval) list" ustr

datatype pstate =
    SVal "frame list"
  | SArr0 "frame list"
  | SArrNext "pyval list" "frame list"
  | SObj0 "frame list"
  | SKey "(ustr \<times> pyval) list" "frame list"
  | SColon "(ustr \<times> pyval) list" ustr "frame list"
  | SObjNext "(ustr \<times> pyval) list" "frame list"
  | SDone pyval

fun deliver :: "pyval \<Rightarrow> frame list \<Rightarrow> pstate" where
  "deliver v [] = SDone v"
| "deliver v (InArr es # st) = SArrNext (es @ [v]) st"
| "deliver v (InObj ps k # st) = SObjNext (dict_setitem ps k v) st"

definition pstep :: "pstate \<Rightarrow> token \<Rightarrow> error + pstate" where
  "pstep s t =
     (case s of
        SVal st \<Rightarrow>
          (case t of
             TErr e \<Rightarrow> Inl e
           | TVal v \<Rightarrow> Inr (deliver v st)
           | TLBrack \<Rightarrow> Inr (SArr0 st)
           | TLBrace \<Rightarrow> Inr (SObj0 st)
           | _ \<Rightarrow> Inl JSONDecodeError)
      | SArr0 st \<Rightarrow>
          (case t of
             TErr e \<Rightarrow> Inl e
           | TRBrack \<Rightarrow> Inr (deliver (PList []) st)
           | TVal v \<Rightarrow> Inr (deliver v (InArr [] # st))
           | TLBrack \<Rightarrow> Inr (SArr0 (InArr [] # st))
           | TLBrace \<Rightarrow> Inr (SObj0 (InArr [] # st))
           | _ \<Rightarrow> Inl JSONDecodeError)
      | SArrNext es st \<Rightarrow>
          (case t of
             TComma \<Rightarrow> Inr (SVal (InArr es # st))
           | TRBrack \<Rightarrow> Inr (deliver (PList es) st)
           | _ \<Rightarrow> Inl JSONDecodeError)
      | SObj0 st \<Rightarrow>
          (case t of
             TRBrace \<Rightarrow> Inr (deliver (PDict []) st)
           | TVal (PStr k) \<Rightarrow> Inr (SColon [] k st)
           | _ \<Rightarrow> Inl JSONDecodeError)
      | SKey ps st \<Rightarrow>
          (case t of
             TVal (PStr k) \<Rightarrow> Inr (SColon ps k st)
           | _ \<Rightarrow> Inl JSONDecodeError)
      | SColon ps k st \<Rightarrow>
          (case t of
             TColon \<Rightarrow> Inr (SVal (InObj ps k # st))
           | _ \<Rightarrow> Inl JSONDecodeError)
      | SObjNext ps st \<Rightarrow>
          (case t of
             TComma \<Rightarrow> Inr (SKey ps st)
           | TRBrace \<Rightarrow> Inr (deliver (PDict ps) st)
           | _ \<Rightarrow> Inl JSONDecodeError)
      | SDone v \<Rightarrow> Inl JSONDecodeError)"

fun run_tokens :: "pstate \<Rightarrow> token list \<Rightarrow> error + pstate" where
  "run_tokens s [] = Inr s"
| "run_tokens s (t # ts) =
     (case pstep s t of Inl e \<Rightarrow> Inl e | Inr s' \<Rightarrow> run_tokens s' ts)"

definition json_loads :: "ustr \<Rightarrow> error + pyval" where
  "json_loads s =
     (case run_tokens (SVal []) (lex s) of
        Inl e \<Rightarrow> Inl e
      | Inr (SDone v) \<Rightarrow> Inr v
      | Inr _ \<Rightarrow> Inl JSONDecodeError)"

text \<open>
  \<^verbatim>\<open>x[key]\<close> for a string key and the iteration \<^verbatim>\<open>for y in x\<close>, on a decoded value:
  only a dict can be indexed by a string (\<^verbatim>\<open>KeyError\<close> for a missing key), and a list,
  a dict (its keys) and a string (its characters) can be iterated; everything else is a
  \<^verbatim>\<open>TypeError\<close>.
\<close>

definition getitem :: "pyval \<Rightarrow> ustr \<Rightarrow> error + pyval" where
  "getitem x key =
     (case x of
        PDict d \<Rightarrow> (case map_of d key of None \<Rightarrow> Inl KeyError | Some v \<Rightarrow> Inr v)
      | _ \<Rightarrow> Inl TypeError)"

definition py_iter :: "pyval \<Rightarrow> error + pyval list" where
  "py_iter x =
     (case x of
        PList xs \<Rightarrow> Inr xs
      | PDict d \<Rightarrow> Inr (map (\<lambda>(k, v). PStr k) d)
      | PStr s \<Rightarrow> Inr (map (\<lambda>c. PStr [c]) s)
      | _ \<Rightarrow> Inl TypeError)"

subsection \<open>CfnNagParser\<close>

fun CfnNag_line_numbers ::
    "pyval \<Rightarrow> violation list \<Rightarrow> pyval list \<Rightarrow> error + violation list" where
  "CfnNag_line_numbers violation_info file_violations [] = Inr file_violations"
| "CfnNag_line_numbers violation_info file_violations (line_number # rest) =
     (case getitem violation_info (u ''id'') of Inl e \<Rightarrow> Inl e | Inr vid \<Rightarrow>
     (case getitem violation_info (u ''message'') of Inl e \<Rightarrow> Inl e | Inr vmessage \<Rightarrow>
        CfnNag_line_numbers violation_info
          (file_violations @
             [\<lparr>line = line_number, column = PInt 0, code = vid, message = vmessage\<rparr>])
          rest))"

fun CfnNag_violations :: "violation list \<Rightarrow> pyval list \<Rightarrow> error + violation list" where
  "CfnNag_violations file_violations [] = Inr file_violations"
| "CfnNag_violations file_violations (violation_info # rest) =
     (case getitem violation_info (u ''line_numbers'') of Inl e \<Rightarrow> Inl e | Inr lns \<Rightarrow>
     (case py_iter lns of Inl e \<Rightarrow> Inl e | Inr line_numbers \<Rightarrow>
     (case CfnNag_line_numbers violation_info file_violations line_numbers of
        Inl e \<Rightarrow> Inl e
      | Inr file_violations' \<Rightarrow> CfnNag_violations file_violations' rest)))"

fun CfnNag_files ::
    "ustr \<Rightarrow> violation list pydict \<Rightarrow> pyval list \<Rightarrow> error + violation list pydict" where
  "CfnNag_files cwd violations [] = Inr violations"
| "CfnNag_files cwd violations (file # rest) =
     (case getitem file (u ''file_results'') of Inl e \<Rightarrow> Inl e | Inr file_results \<Rightarrow>
     (case getitem file_results (u ''violations'') of Inl e \<Rightarrow> Inl e | Inr vs \<Rightarrow>
     (case py_iter vs of Inl e \<Rightarrow> Inl e | Inr infos \<Rightarrow>
     (case CfnNag_violations [] infos of Inl e \<Rightarrow> Inl e | Inr file_violations \<Rightarrow>
     (case getitem file (u ''filename'') of Inl e \<Rightarrow> Inl e | Inr filename \<Rightarrow>
     (case normalize_path cwd filename of Inl e \<Rightarrow> Inl e | Inr path \<Rightarrow>
        CfnNag_files cwd (dict_setitem violations (PStr path) file_violations) rest))))))"

definition CfnNagParser_parse_violations ::
    "ustr \<Rightarrow> ustr \<Rightarrow> error + violation list pydict" where
  "CfnNagParser_parse_violations cwd output =
     (case json_loads output of Inl e \<Rightarrow> Inl e | Inr file_list \<Rightarrow>
     (case py_iter file_list of Inl e \<Rightarrow> Inl e | Inr files \<Rightarrow>
        CfnNag_files cwd [] files))"

subsection \<open>GitLeaksParser and HadolintParser\<close>

fun GitLeaks_loop ::
    "ustr \<Rightarrow> violation list pydict \<Rightarrow> pyval list \<Rightarrow> error + violation list pydict" where
  "GitLeaks_loop cwd violations [] = Inr violations"
| "GitLeaks_loop cwd violations (violation_data # rest) =
     (case getitem violation_data (u ''lineNumber'') of Inl e \<Rightarrow> Inl e | Inr vline \<Rightarrow>
     (case getitem violation_data (u ''offender'') of Inl e \<Rightarrow> Inl e | Inr vcode \<Rightarrow>
     (case getitem violation_data (u ''rule'') of Inl e \<Rightarrow> Inl e | Inr vmessage \<Rightarrow>
     (case getitem violation_data (u ''file'') of Inl e \<Rightarrow> Inl e | Inr vfile \<Rightarrow>
     (case normalize_path cwd vfile of Inl e \<Rightarrow> Inl e | Inr path \<Rightarrow>
        GitLeaks_loop cwd
          (defaultdict_append violations (PStr path)
             \<lparr>line = vline, column = PInt 0, code = vcode, message = vmessage\<rparr>)
          rest)))))"

definition GitLeaksParser_parse_violations ::
    "ustr \<Rightarrow> ustr \<Rightarrow> error + violation list pydict" where
  "GitLeaksParser_parse_violations cwd output =
     (if output = [] then Inr []
      else
        (case json_loads output of Inl e \<Rightarrow> Inl e | Inr json_data \<Rightarrow>
        (case py_iter json_data of Inl e \<Rightarrow> Inl e | Inr records \<Rightarrow>
           GitLeaks_loop cwd [] records)))"

fun Hadolint_loop ::
    "ustr \<Rightarrow> violation list pydict \<Rightarrow> pyval list \<Rightarrow> error + violation list pydict" where
  "Hadolint_loop cwd violations [] = Inr violations"
| "Hadolint_loop cwd violations (violation_json # rest) =
     (case getitem violation_json (u ''line'') of Inl e \<Rightarrow> Inl e | Inr vline \<Rightarrow>
     (case getitem violation_json (u ''column'') of Inl e \<Rightarrow> Inl e | Inr vcolumn \<Rightarrow>
     (case getitem violation_json (u ''code'') of Inl e \<Rightarrow> Inl e | Inr vcode \<Rightarrow>
     (case getitem violation_json (u ''message'') of Inl e \<Rightarrow> Inl e | Inr vmessage \<Rightarrow>
     (case getitem violation_json (u ''file'') of Inl e \<Rightarrow> Inl e | Inr vfile \<Rightarrow>
     (case normalize_path cwd vfile of Inl e \<Rightarrow> Inl e | Inr path \<Rightarrow>
        Hadolint_loop cwd
          (defaultdict_append violations (PStr path)
             \<lparr>line = vline, column = vcolumn, code = vcode, message = vmessage\<rparr>)
          rest))))))"

definition HadolintParser_parse_violations ::
    "ustr \<Rightarrow> ustr \<Rightarrow> error + violation list pydict" where
  "HadolintParser_parse_violations cwd output =
     (if output = [] then Inr []
      else
        (case json_loads output of Inl e \<Rightarrow> Inl e | Inr json_data \<Rightarrow>
        (case py_iter json_data of Inl e \<Rightarrow> Inl e | Inr records \<Rightarrow>
           Hadolint_loop cwd [] records)))"

text \<open>
  Names used in the statements about \<^verbatim>\<open>CfnNagParser\<close>: the normalised path of a string
  (normalising a string never fails), and the shape of well-formed input. A violation
  record of cfn-nag is an object with an \<^verbatim>\<open>id\<close>, a \<^verbatim>\<open>message\<close> and a list of
  \<^verbatim>\<open>line_numbers\<close>; a file record is an object with a \<^verbatim>\<open>filename\<close> that is a string and
  \<^verbatim>\<open>file_results\<close> that hold a list of \<^verbatim>\<open>violations\<close>.
\<close>

definition normalized :: "ustr \<Rightarrow> ustr \<Rightarrow> ustr" where
  "normalized cwd p = (case normalize_path cwd (PStr p) of Inr q \<Rightarrow> q | Inl e \<Rightarrow> [])"

definition cfn_record :: "pyval \<Rightarrow> pyval \<times> pyval \<times> pyval list \<Rightarrow> bool" where
  "cfn_record violation_info rec \<longleftrightarrow>
     (case rec of (vid, vmessage, line_numbers) \<Rightarrow>
        getitem violation_info (u ''id'') = Inr vid \<and>
        getitem violation_info (u ''message'') = Inr vmessage \<and>
        getitem violation_info (u ''line_numbers'') = Inr (PList line_numbers))"

definition cfn_file :: "pyval \<Rightarrow> ustr \<times> (pyval \<times> pyval \<times> pyval list) list \<Rightarrow> bool" where
  "cfn_file file frec \<longleftrightarrow>
     (case frec of (filename, recs) \<Rightarrow>
        getitem file (u ''filename'') = Inr (PStr filename) \<and>
        (\<exists>file_results infos.
           getitem file (u ''file_results'') = Inr file_results \<and>
           getitem file_results (u ''violations'') = Inr (PList infos) \<and>
           list_all2 cfn_record infos recs))"

section \<open>Evaluation\<close>

text \<open>The unfoldings that evaluate the functions on a concrete input.\<close>

lemmas str_eval = u_def strip_def lstrip_def rstrip_def isspace_def splitlines_def
  islinebreak_def startswith_def endswith_def

lemmas path_eval = normalize_path_def relpath_def normpath_def abspath_def isabs_def Let_def
  sep_def curdir_def pardir_def normpath_step_def initial_slashes_def

lemmas re_eval = re_match_def decimal_def decimal_zeros_def match_group_def py_int_def
  int_unsigned_def pystr_def

lemmas dict_eval = defaultdict_append_def dict_get_def

lemmas json_eval = json_loads_def pstep_def json_ws_def isdig_def isnumchar_def number_token_def
  digits_value_def fraction_ok_def exponent_ok_def hexval_def hex4_def escape_char_def
  getitem_def py_iter_def

section \<open>Properties of the string and path functions\<close>

lemma py_split_nonempty [simp]: "py_split c s \<noteq> []"
  by (induction s) (auto split: list.splits)

lemma py_split_append: "py_split c (a @ c # b) = py_split c a @ py_split c b"
  by (induction a) (auto split: list.splits)

lemma py_split_no_sep: "c \<notin> set s \<Longrightarrow> py_split c s = [s]"
  by (induction s) auto

lemma normpath_nonempty [simp]: "normpath p \<noteq> []"
  by (simp add: normpath_def Let_def curdir_def)

lemma normalize_path_PStr: "\<exists>q. normalize_path cwd (PStr p) = Inr q"
  by (simp add: normalize_path_def relpath_def Let_def)

section \<open>BlackParser\<close>

lemma BlackParser_loop_filter:
  "BlackParser_loop cwd d (filter (\<lambda>l. startswith l (u ''would reformat '')) lns) =
   BlackParser_loop cwd d lns"
  by (induction lns arbitrary: d) (auto split: sum.splits)

lemma would_reformat_last_token:
  assumes "32 \<notin> set p"
  shows "last (py_split 32 (u ''would reformat '' @ p)) = p"
proof -
  have "u ''would reformat '' @ p = u ''would reformat'' @ 32 # p"
    by (simp add: u_def)
  then show ?thesis
    using assms by (simp only: py_split_append) (simp add: py_split_no_sep)
qed

text \<open>
  What the parser returns, for every output: each line that starts with
  \<^verbatim>\<open>would reformat \<close> sets the entry of the normalised last space-separated word of the
  line to the list of the one Violation, in the order of the lines, and the other lines
  contribute nothing.
\<close>

lemma BlackParser_loop_result:
  "\<exists>keys.
     list_all2 (\<lambda>l k. normalize_path cwd (PStr (last (py_split 32 l))) = Inr k)
       (filter (\<lambda>l. startswith l (u ''would reformat '')) lns) keys \<and>
     BlackParser_loop cwd d lns =
       Inr (foldl (\<lambda>d k. dict_setitem d (PStr k)
                    [\<lparr>line = PInt 1, column = PInt 1, code = PStr (u ''`black`''),
                      message = PStr (u ''this file needs to be formatted'')\<rparr>])
              d keys)"
proof (induction lns arbitrary: d)
  case Nil
  show ?case by simp
next
  case (Cons l lns)
  show ?case
  proof (cases "startswith l (u ''would reformat '')")
    case True
    obtain q where q: "normalize_path cwd (PStr (last (py_split 32 l))) = Inr q"
      using normalize_path_PStr by blast
    obtain keys where
      "list_all2 (\<lambda>l k. normalize_path cwd (PStr (last (py_split 32 l))) = Inr k)
         (filter (\<lambda>l. startswith l (u ''would reformat '')) lns) keys"
      "BlackParser_loop cwd
         (dict_setitem d (PStr q)
            [\<lparr>line = PInt 1, column = PInt 1, code = PStr (u ''`black`''),
              message = PStr (u ''this file needs to be formatted'')\<rparr>]) lns =
       Inr (foldl (\<lambda>d k. dict_setitem d (PStr k)
                    [\<lparr>line = PInt 1, column = PInt 1, code = PStr (u ''`black`''),
                      message = PStr (u ''this file needs to be formatted'')\<rparr>])
              (dict_setitem d (PStr q)
                 [\<lparr>line = PInt 1, column = PInt 1, code = PStr (u ''`black`''),
                   message = PStr (u ''this file needs to be formatted'')\<rparr>]) keys)"
      using Cons.IH by blast
    then show ?thesis
      using True q by (intro exI[of _ "q # keys"]) simp
  next
    case False
    then show ?thesis using Cons.IH[of d] by simp
  qed
qed

lemma BlackParser_one_line:
  assumes "splitlines (strip output) = [ln]" and "startswith ln (u ''would reformat '')"
  shows "\<exists>path. normalize_path cwd (PStr (last (py_split 32 ln))) = Inr path \<and>
         BlackParser_parse_violations cwd output =
           Inr [(PStr path,
                 [\<lparr>line = PInt 1, column = PInt 1, code = PStr (u ''`black`''),
                   message = PStr (u ''this file needs to be formatted'')\<rparr>])]"
proof -
  obtain q where q: "normalize_path cwd (PStr (last (py_split 32 ln))) = Inr q"
    using normalize_path_PStr by blast
  with assms show ?thesis
    by (simp add: BlackParser_parse_violations_def)
qed

text \<open>
  C8. The key is the last space-separated word of the line (the comment of the source:
  "Last part is the file path"), and that is the path the line names only when the path
  has no space (\<open>would_reformat_last_token\<close>). For the line that \<^verbatim>\<open>black --check\<close> prints
  for the file \<^verbatim>\<open>my file.py\<close>, the violation is stored under \<^verbatim>\<open>file.py\<close>, which is not
  the normalised path of the file named.
\<close>

theorem BlackParser_path_with_space:
  "BlackParser_parse_violations (u ''/repo'') (u ''would reformat my file.py'') =
     Inr [(PStr (u ''file.py''),
           [\<lparr>line = PInt 1, column = PInt 1, code = PStr (u ''`black`''),
             message = PStr (u ''this file needs to be formatted'')\<rparr>])] \<and>
   normalize_path (u ''/repo'') (PStr (u ''my file.py'')) = Inr (u ''my file.py'') \<and>
   u ''my file.py'' \<noteq> u ''file.py''"
proof -
  have s: "splitlines (strip (u ''would reformat my file.py'')) = [u ''would reformat my file.py'']"
    by (simp add: str_eval)
  have p: "startswith (u ''would reformat my file.py'') (u ''would reformat '')"
    by (simp add: u_def startswith_def)
  have t: "last (py_split 32 (u ''would reformat my file.py'')) = u ''file.py''"
    by (simp add: u_def)
  have n: "normalize_path (u ''/repo'') (PStr (u ''file.py'')) = Inr (u ''file.py'')"
    by (simp add: u_def path_eval startswith_def endswith_def)
  have m: "normalize_path (u ''/repo'') (PStr (u ''my file.py'')) = Inr (u ''my file.py'')"
    by (simp add: u_def path_eval startswith_def endswith_def)
  have "BlackParser_parse_violations (u ''/repo'') (u ''would reformat my file.py'') =
     Inr [(PStr (u ''file.py''),
           [\<lparr>line = PInt 1, column = PInt 1, code = PStr (u ''`black`''),
             message = PStr (u ''this file needs to be formatted'')\<rparr>])]"
    using BlackParser_one_line[OF s p, of "u ''/repo''"] by (simp only: t n) simp
  moreover have "u ''my file.py'' \<noteq> u ''file.py''"
    by (simp add: u_def)
  ultimately show ?thesis using m by blast
qed

lemma py_split_no_sep_in: "x \<in> set (py_split c s) \<Longrightarrow> c \<notin> set x"
  by (induction s arbitrary: x) (auto split: if_splits list.splits)

lemma py_split_replicate: "py_split c (replicate k c @ s) = replicate k [] @ py_split c s"
  by (induction k) auto

lemma py_split_join:
  "xs \<noteq> [] \<Longrightarrow> \<forall>x\<in>set xs. c \<notin> set x \<Longrightarrow> py_split c (py_join [c] xs) = xs"
proof (induction "[c]" xs rule: py_join.induct)
  case 1
  then show ?case by simp
next
  case (2 x)
  then show ?case by (simp add: py_split_no_sep)
next
  case (3 x y xs)
  then show ?case by (simp add: py_split_append py_split_no_sep)
qed

lemma commonprefix_take:
  "take (length (commonprefix xs ys)) xs = commonprefix xs ys"
  "take (length (commonprefix xs ys)) ys = commonprefix xs ys"
  by (induction xs ys rule: commonprefix.induct) auto

lemma commonprefix_length:
  "length (commonprefix xs ys) \<le> length xs" "length (commonprefix xs ys) \<le> length ys"
  by (induction xs ys rule: commonprefix.induct) auto

lemma clean_simps [simp]:
  "clean []" "clean (xs @ ys) \<longleftrightarrow> clean xs \<and> clean ys"
  "clean (x # xs) \<longleftrightarrow> x \<noteq> [] \<and> x \<noteq> curdir \<and> x \<noteq> pardir \<and> 47 \<notin> set x \<and> clean xs"
  by (auto simp: clean_def)

lemma clean_butlast: "clean xs \<Longrightarrow> clean (butlast xs)"
  by (induction xs) auto

lemma clean_take: "clean xs \<Longrightarrow> clean (take n xs)"
  by (simp add: clean_def list_all_iff) (meson in_set_takeD)

lemma clean_drop: "clean xs \<Longrightarrow> clean (drop n xs)"
  by (simp add: clean_def list_all_iff) (meson in_set_dropD)

lemma clean_last: "clean xs \<Longrightarrow> xs \<noteq> [] \<Longrightarrow> last xs \<noteq> pardir"
  by (induction xs) (auto split: if_splits)

lemma normpath_step_abs:
  "0 < k \<Longrightarrow> clean acc \<Longrightarrow> 47 \<notin> set x \<Longrightarrow> clean (normpath_step k acc x)"
  using clean_last[of acc] by (auto simp: normpath_step_def clean_butlast)

lemma foldl_step_abs_clean:
  "0 < k \<Longrightarrow> clean acc \<Longrightarrow> \<forall>x\<in>set xs. 47 \<notin> set x \<Longrightarrow> clean (foldl (normpath_step k) acc xs)"
  by (induction xs arbitrary: acc) (auto simp: normpath_step_abs)

lemma foldl_step_clean_append:
  "clean Q \<Longrightarrow> foldl (normpath_step k) acc Q = acc @ Q"
  by (induction Q arbitrary: acc) (auto simp: normpath_step_def)

lemma foldl_step_pardir_rel:
  "\<forall>x\<in>set acc. x = pardir \<Longrightarrow>
   foldl (normpath_step 0) acc (replicate m pardir) = acc @ replicate m pardir"
proof (induction m arbitrary: acc)
  case 0
  then show ?case by simp
next
  case (Suc m)
  have "normpath_step 0 acc pardir = acc @ [pardir]"
    using Suc.prems by (cases "acc = []") (auto simp: normpath_step_def pardir_def curdir_def)
  moreover have "\<forall>x\<in>set (acc @ [pardir]). x = pardir" using Suc.prems by auto
  ultimately show ?case using Suc.IH[of "acc @ [pardir]"] by (simp add: replicate_app_Cons_same)
qed

lemma foldl_step_pardir_abs:
  "0 < k \<Longrightarrow> clean acc \<Longrightarrow>
   foldl (normpath_step k) acc (replicate m pardir) = take (length acc - m) acc"
proof (induction m arbitrary: acc)
  case 0
  then show ?case by simp
next
  case (Suc m)
  have s: "normpath_step k acc pardir = butlast acc"
    using Suc.prems clean_last[of acc] by (auto simp: normpath_step_def pardir_def curdir_def)
  have "foldl (normpath_step k) (butlast acc) (replicate m pardir) = take (length (butlast acc) - m) (butlast acc)"
    using Suc.IH[of "butlast acc"] Suc.prems clean_butlast by blast
  then show ?case using s by (simp add: butlast_conv_take min_def)
qed

lemma normpath_step_k: "0 < k \<Longrightarrow> normpath_step k = normpath_step 1"
  by (auto simp: normpath_step_def fun_eq_iff)


lemma isabs_Cons: "isabs s \<longleftrightarrow> (\<exists>t. s = 47 # t)"
  by (cases s) (auto simp: isabs_def startswith_def sep_def)

lemma initial_slashes_abs: "isabs s \<Longrightarrow> 0 < initial_slashes s"
  by (simp add: initial_slashes_def isabs_def)

lemma initial_slashes_rel: "\<not> isabs s \<Longrightarrow> initial_slashes s = 0"
  by (simp add: initial_slashes_def isabs_def)

lemma filter_nonempty_clean: "clean xs \<Longrightarrow> filter (\<lambda>x. x \<noteq> []) xs = xs"
  by (induction xs) auto

lemma py_split_in_no_slash: "\<forall>x\<in>set (py_split 47 s). 47 \<notin> set x"
  using py_split_no_sep_in by blast

lemma normpath_abs:
  assumes "isabs q"
  shows "normpath q = replicate (initial_slashes q) 47 @
           py_join sep (foldl (normpath_step 1) [] (py_split 47 q))"
proof -
  have k: "0 < initial_slashes q" using assms by (rule initial_slashes_abs)
  have "q \<noteq> []" using assms by (auto simp: isabs_Cons)
  moreover have "replicate (initial_slashes q) 47 @ x \<noteq> []" for x :: ustr
    using k by simp
  ultimately show ?thesis
    using k normpath_step_k[OF k] by (simp add: normpath_def Let_def)
qed

lemma abs_comps:
  assumes "isabs q"
  shows "filter (\<lambda>x. x \<noteq> []) (py_split 47 (normpath q)) =
           foldl (normpath_step 1) [] (py_split 47 q)"
proof -
  let ?C = "foldl (normpath_step 1) [] (py_split 47 q)"
  have c: "clean ?C"
    by (rule foldl_step_abs_clean) (simp_all add: py_split_in_no_slash)
  have "filter (\<lambda>x. x \<noteq> []) (py_split 47 (py_join sep ?C)) = ?C"
  proof (cases "?C = []")
    case True
    then show ?thesis by simp
  next
    case False
    moreover have "\<forall>x\<in>set ?C. 47 \<notin> set x"
      using c by (simp add: clean_def list_all_iff)
    ultimately have "py_split 47 (py_join sep ?C) = ?C"
      unfolding sep_def by (rule py_split_join)
    then show ?thesis using c by (simp add: filter_nonempty_clean)
  qed
  then show ?thesis
    by (simp add: normpath_abs[OF assms] py_split_replicate)
qed

lemma normpath_step_empty [simp]: "normpath_step k acc [] = acc"
  by (simp add: normpath_step_def)

lemma rel_comps:
  assumes "isabs cwd" and "\<not> isabs x"
  shows "filter (\<lambda>x. x \<noteq> []) (py_split 47 (abspath cwd x)) =
           foldl (normpath_step 1) (foldl (normpath_step 1) [] (py_split 47 cwd)) (py_split 47 x)"
proof -
  let ?J = "posix_join cwd [x]"
  have ne: "cwd \<noteq> []" using assms(1) by (auto simp: isabs_Cons)
  have nx: "\<not> startswith x sep" using assms(2) by (simp add: isabs_def)
  have "isabs ?J \<and> foldl (normpath_step 1) [] (py_split 47 ?J) =
          foldl (normpath_step 1) (foldl (normpath_step 1) [] (py_split 47 cwd)) (py_split 47 x)"
  proof (cases "endswith cwd sep")
    case True
    then have "take (length cwd - 1) cwd @ [47] = cwd"
      using append_take_drop_id[of "length cwd - 1" cwd] by (simp add: endswith_def sep_def)
    then obtain c0 where c0: "cwd = c0 @ [47]" by metis
    have j: "?J = c0 @ 47 # x" using True nx c0 by simp
    have "isabs (c0 @ 47 # x)" using assms(1) c0 by (cases c0) (auto simp: isabs_Cons)
    moreover have "py_split 47 (c0 @ 47 # x) = py_split 47 c0 @ py_split 47 x"
      by (rule py_split_append)
    moreover have "py_split 47 cwd = py_split 47 c0 @ [[]]"
      unfolding c0 using py_split_append[of 47 c0 "[]"] by simp
    ultimately show ?thesis unfolding j by simp
  next
    case False
    have j: "?J = cwd @ 47 # x" using False nx ne by (simp add: sep_def)
    have "isabs (cwd @ 47 # x)" using assms(1) by (auto simp: isabs_Cons)
    moreover have "py_split 47 (cwd @ 47 # x) = py_split 47 cwd @ py_split 47 x"
      by (rule py_split_append)
    ultimately show ?thesis unfolding j by simp
  qed
  then show ?thesis using assms(2) by (simp add: abspath_def abs_comps)
qed


lemma py_join_cons_append: "py_join c ((a @ c @ b) # bs) = a @ c @ py_join c (b # bs)"
  by (cases bs) auto

lemma posix_join_py_join:
  "acc \<noteq> [] \<Longrightarrow> last acc \<noteq> 47 \<Longrightarrow> \<forall>b\<in>set bs. b \<noteq> [] \<and> 47 \<notin> set b \<Longrightarrow>
   posix_join acc bs = py_join sep (acc # bs)"
proof (induction bs arbitrary: acc)
  case Nil
  then show ?case by simp
next
  case (Cons b bs)
  have b: "b \<noteq> []" "47 \<notin> set b" using Cons.prems(3) by auto
  then have nb: "\<not> startswith b sep" by (cases b) (auto simp: startswith_def sep_def)
  have ne: "\<not> endswith acc sep"
  proof
    assume "endswith acc sep"
    then have "last (drop (length acc - 1) acc) = 47" by (simp add: endswith_def sep_def)
    then show False using Cons.prems(1,2) by (simp add: last_drop)
  qed
  have lb: "last b \<noteq> 47" using b last_in_set by metis
  have "posix_join (acc @ sep @ b) bs = py_join sep ((acc @ sep @ b) # bs)"
    using Cons.prems b lb by (intro Cons.IH) (auto simp: sep_def)
  then show ?case using nb ne Cons.prems(1) by (simp add: py_join_cons_append)
qed

lemma commonprefix_same [simp]: "commonprefix xs xs = xs"
  by (induction xs) auto

lemma rel_list_same [simp]: "rel_list S S = []"
  by (simp add: rel_list_def)

lemma relpath_eq:
  "path \<noteq> [] \<Longrightarrow> relpath cwd path start =
     Inr (let R = rel_list (filter (\<lambda>x. x \<noteq> []) (py_split 47 (abspath cwd start)))
                           (filter (\<lambda>x. x \<noteq> []) (py_split 47 (abspath cwd path)))
          in if R = [] then curdir else posix_join (hd R) (tl R))"
  by (simp add: relpath_def rel_list_def Let_def)


lemma normpath_step_curdir [simp]: "normpath_step k acc curdir = acc"
  by (simp add: normpath_step_def)

lemma normpath_curdir: "normpath curdir = curdir"
  by (simp add: normpath_def curdir_def initial_slashes_def startswith_def sep_def
      normpath_step_def Let_def)

lemma py_join_Cons_hd: "x \<noteq> [] \<Longrightarrow> py_join c (x # xs) \<noteq> [] \<and> hd (py_join c (x # xs)) = hd x"
  by (cases xs) auto

lemma relative_fixed:
  assumes S: "S = foldl (normpath_step 1) [] (py_split 47 cwd)"
    and P: "clean P"
    and R: "R = rel_list S P"
    and q: "q = (if R = [] then curdir else posix_join (hd R) (tl R))"
  shows "normpath q = q \<and> q \<noteq> [] \<and> \<not> isabs q \<and>
         rel_list S (foldl (normpath_step 1) S (py_split 47 q)) = R"
proof (cases "R = []")
  case True
  then have "q = curdir" using q by simp
  moreover have "py_split 47 curdir = [curdir]" by (simp add: curdir_def)
  moreover have "curdir \<noteq> []" "\<not> isabs curdir" by (simp_all add: curdir_def isabs_Cons)
  ultimately show ?thesis
    using True by (simp add: normpath_curdir)
next
  case False
  define i where "i = length (commonprefix S P)"
  define m where "m = length S - i"
  define Q where "Q = drop i P"
  have cS: "clean S"
    unfolding S by (rule foldl_step_abs_clean) (simp_all add: py_split_in_no_slash)
  have cQ: "clean Q" unfolding Q_def using P by (rule clean_drop)
  have Rm: "R = replicate m pardir @ Q"
    by (simp add: R rel_list_def m_def i_def Q_def)
  have ok: "\<forall>b\<in>set R. b \<noteq> [] \<and> 47 \<notin> set b"
  proof
    fix b
    assume "b \<in> set R"
    then consider "b = pardir" | "b \<in> set Q"
      by (auto simp: Rm)
    then show "b \<noteq> [] \<and> 47 \<notin> set b"
    proof cases
      case 1
      then show ?thesis by (simp add: pardir_def)
    next
      case 2
      then show ?thesis using cQ by (simp add: clean_def list_all_iff)
    qed
  qed
  obtain r rs where rs: "R = r # rs" using False by (cases R) auto
  have r: "r \<noteq> []" "47 \<notin> set r" "\<forall>b\<in>set rs. b \<noteq> [] \<and> 47 \<notin> set b"
    using ok rs by auto
  have lr: "last r \<noteq> 47" using r(1,2) last_in_set by metis
  have qj: "q = py_join sep R"
    using q False rs posix_join_py_join[OF r(1) lr r(3)] by simp
  have qne: "q \<noteq> []" and hq: "hd q = hd r"
    using py_join_Cons_hd[OF r(1), of sep rs] by (simp_all add: qj rs)
  have hr: "hd r \<noteq> 47" using r(1,2) by (cases r) auto
  have nabs: "\<not> isabs q" using hq hr by (auto simp: isabs_Cons)
  have sp: "py_split 47 q = R"
    unfolding qj sep_def using False ok by (intro py_split_join) auto
  have f0: "foldl (normpath_step 0) [] R = R"
    using foldl_step_pardir_rel[of "[]" m] cQ by (simp add: Rm foldl_step_clean_append)
  have "normpath q = py_join sep (foldl (normpath_step 0) [] (py_split 47 q))"
    using qne nabs by (simp add: normpath_def Let_def initial_slashes_rel sp f0 qj[symmetric])
  then have np: "normpath q = q"
    using sp f0 qj by simp
  have im: "length S - m = i"
    using commonprefix_length(1)[of S P] by (simp add: m_def i_def)
  have "foldl (normpath_step 1) S R = take i S @ Q"
    using foldl_step_pardir_abs[of 1 S m] cS cQ
    by (simp add: Rm foldl_step_clean_append im)
  also have "take i S = take i P"
    by (simp add: i_def commonprefix_take)
  finally have "foldl (normpath_step 1) S R = P" by (simp add: Q_def)
  then show ?thesis using np qne nabs by (simp add: sp R)
qed

text \<open>
  C5. For a working directory that is an absolute path (as \<^verbatim>\<open>os.getcwd()\<close> returns it) and
  every path string, normalising succeeds, and normalising the result again gives the
  same string.
\<close>

theorem normalize_path_idempotent:
  assumes "isabs cwd"
  shows "\<exists>q. normalize_path cwd (PStr p) = Inr q \<and> normalize_path cwd (PStr q) = Inr q"
proof -
  define S where "S = foldl (normpath_step 1) [] (py_split 47 cwd)"
  define pc where "pc = (\<lambda>x. filter (\<lambda>x. x \<noteq> []) (py_split 47 (abspath cwd x)))"
  define render where "render = (\<lambda>R. if R = [] then curdir else posix_join (hd R) (tl R))"
  have cS: "clean S"
    unfolding S_def by (rule foldl_step_abs_clean) (simp_all add: py_split_in_no_slash)
  have pcS: "pc cwd = S"
    using assms by (simp add: pc_def S_def abspath_def abs_comps)
  have norm: "normalize_path cwd (PStr x) = Inr (render (rel_list S (pc (normpath x))))" for x
    by (simp add: normalize_path_def relpath_eq pcS[unfolded pc_def] pc_def render_def Let_def)
  have pc_abs: "pc x = foldl (normpath_step 1) [] (py_split 47 x)" if "isabs x" for x
    using that by (simp add: pc_def abspath_def abs_comps)
  have pc_rel: "pc x = foldl (normpath_step 1) S (py_split 47 x)" if "\<not> isabs x" for x
    using that assms by (simp add: pc_def S_def rel_comps)
  have pc_clean: "clean (pc x)" for x
  proof (cases "isabs x")
    case True
    show ?thesis unfolding pc_abs[OF True]
      by (rule foldl_step_abs_clean) (simp_all add: py_split_in_no_slash)
  next
    case False
    show ?thesis unfolding pc_rel[OF False]
      by (rule foldl_step_abs_clean) (simp_all add: py_split_in_no_slash cS)
  qed
  define q where "q = render (rel_list S (pc (normpath p)))"
  have fx: "normpath q = q \<and> q \<noteq> [] \<and> \<not> isabs q \<and>
         rel_list S (foldl (normpath_step 1) S (py_split 47 q)) = rel_list S (pc (normpath p))"
    by (rule relative_fixed[OF S_def pc_clean refl]) (simp add: q_def render_def)
  then have "pc (normpath q) = foldl (normpath_step 1) S (py_split 47 q)"
    using pc_rel[of q] by simp
  then have "normalize_path cwd (PStr q) = Inr q"
    using fx by (simp add: norm q_def[symmetric])
  moreover have "normalize_path cwd (PStr p) = Inr q"
    by (simp add: norm q_def)
  ultimately show ?thesis by blast
qed

theorem normalize_path_idempotent_witness:
  "isabs (u ''/repo'') \<and>
   normalize_path (u ''/repo'') (PStr (u ''/repo/a/../b.py'')) = Inr (u ''b.py'') \<and>
   normalize_path (u ''/repo'') (PStr (u ''b.py'')) = Inr (u ''b.py'')"
proof -
  have a: "isabs (u ''/repo'')"
    by (simp add: u_def isabs_def startswith_def sep_def)
  have n: "normalize_path (u ''/repo'') (PStr (u ''/repo/a/../b.py'')) = Inr (u ''b.py'')"
    by (simp add: u_def normalize_path_def relpath_def normpath_def abspath_def isabs_def
        Let_def sep_def curdir_def pardir_def normpath_step_def startswith_def endswith_def
        initial_slashes_def)
  from normalize_path_idempotent [OF a, of "u ''/repo/a/../b.py''"] a n
  show ?thesis by auto
qed

section \<open>ESLintParser and StylelintParser\<close>

lemma dict_setitem_nonempty:
  "[] \<notin> snd ` set d \<Longrightarrow> v \<noteq> [] \<Longrightarrow> [] \<notin> snd ` set (dict_setitem d k v)"
proof (induction d)
  case Nil
  then show ?case by simp
next
  case (Cons a d)
  obtain k' v' where a: "a = (k', v')" by (cases a)
  from Cons.prems have "v' \<noteq> []" "[] \<notin> snd ` set d" by (auto simp: a)
  with Cons.IH Cons.prems(2) show ?case by (auto simp: a)
qed

lemma defaultdict_append_nonempty:
  "[] \<notin> snd ` set d \<Longrightarrow> [] \<notin> snd ` set (defaultdict_append d k v)"
  unfolding defaultdict_append_def by (rule dict_setitem_nonempty) simp_all

lemma violation_line_nonempty:
  assumes "violation_line regex cf d ln = Inr d'" and "[] \<notin> snd ` set d"
  shows "[] \<notin> snd ` set d'"
proof -
  from assms(1) obtain v where "d' = defaultdict_append d cf v"
    unfolding violation_line_def by (auto split: option.splits sum.splits)
  then show ?thesis using assms(2) by (simp only: defaultdict_append_nonempty not_False_eq_True)
qed

lemma ESLintParser_loop_nonempty:
  "ESLintParser_loop cwd cf d lns = Inr d' \<Longrightarrow> [] \<notin> snd ` set d \<Longrightarrow> [] \<notin> snd ` set d'"
proof (induction lns arbitrary: cf d)
  case Nil
  then show ?case by simp
next
  case (Cons ln lns)
  show ?case
  proof (cases "startswith ln (u '' '')")
    case True
    with Cons.prems(1) obtain d1 where d1: "violation_line eslint_regex cf d ln = Inr d1"
      and r: "ESLintParser_loop cwd cf d1 lns = Inr d'"
      by (auto split: sum.splits)
    from violation_line_nonempty[OF d1 Cons.prems(2)] r show ?thesis by (rule Cons.IH[rotated])
  next
    case False
    show ?thesis
    proof (cases "startswith ln [10006]")
      case True
      with False Cons.prems show ?thesis by simp
    next
      case nt: False
      with False Cons.prems(1) obtain p where "ESLintParser_loop cwd (PStr p) d lns = Inr d'"
        by (auto split: sum.splits)
      then show ?thesis using Cons.prems(2) by (rule Cons.IH)
    qed
  qed
qed

lemma StylelintParser_loop_nonempty:
  "StylelintParser_loop cwd cf d lns = Inr d' \<Longrightarrow> [] \<notin> snd ` set d \<Longrightarrow> [] \<notin> snd ` set d'"
proof (induction lns arbitrary: cf d)
  case Nil
  then show ?case by simp
next
  case (Cons ln lns)
  show ?case
  proof (cases "startswith ln (u '' '')")
    case True
    with Cons.prems(1) obtain d1 where d1: "violation_line stylelint_regex cf d ln = Inr d1"
      and r: "StylelintParser_loop cwd cf d1 lns = Inr d'"
      by (auto split: sum.splits)
    from violation_line_nonempty[OF d1 Cons.prems(2)] r show ?thesis by (rule Cons.IH[rotated])
  next
    case False
    with Cons.prems(1) obtain p where "StylelintParser_loop cwd (PStr p) d lns = Inr d'"
      by (auto split: sum.splits)
    then show ?thesis using Cons.prems(2) by (rule Cons.IH)
  qed
qed

lemma ESLintParser_loop_headers_only:
  "\<forall>l\<in>set lns. \<not> startswith l (u '' '') \<Longrightarrow> ESLintParser_loop cwd cf d lns = Inr d"
proof (induction lns arbitrary: cf)
  case Nil
  then show ?case by simp
next
  case (Cons ln lns)
  obtain p where "normalize_path cwd (PStr ln) = Inr p" using normalize_path_PStr by blast
  then show ?case using Cons by simp
qed

lemma StylelintParser_loop_headers_only:
  "\<forall>l\<in>set lns. \<not> startswith l (u '' '') \<Longrightarrow> StylelintParser_loop cwd cf d lns = Inr d"
proof (induction lns arbitrary: cf)
  case Nil
  then show ?case by simp
next
  case (Cons ln lns)
  obtain p where "normalize_path cwd (PStr ln) = Inr p" using normalize_path_PStr by blast
  then show ?case using Cons by simp
qed

text \<open>
  C2, as the sources have it: a header line only sets \<open>current_file\<close>; the mapping gets
  an entry when a violation is appended. So no list in the returned mapping is empty, and
  an output without indented lines gives the empty mapping, in both parsers.
\<close>

theorem indented_block_no_empty_entry:
  "(ESLintParser_parse_violations cwd output = Inr d \<longrightarrow> [] \<notin> snd ` set d) \<and>
   (StylelintParser_parse_violations cwd output = Inr d \<longrightarrow> [] \<notin> snd ` set d) \<and>
   ((\<forall>l\<in>set (splitlines (strip output)). \<not> startswith l (u '' '')) \<longrightarrow>
      ESLintParser_parse_violations cwd output = Inr [] \<and>
      StylelintParser_parse_violations cwd output = Inr [])"
proof (intro conjI impI)
  assume "ESLintParser_parse_violations cwd output = Inr d"
  then show "[] \<notin> snd ` set d"
    unfolding ESLintParser_parse_violations_def by (rule ESLintParser_loop_nonempty) simp
next
  assume "StylelintParser_parse_violations cwd output = Inr d"
  then show "[] \<notin> snd ` set d"
    unfolding StylelintParser_parse_violations_def by (rule StylelintParser_loop_nonempty) simp
next
  assume "\<forall>l\<in>set (splitlines (strip output)). \<not> startswith l (u '' '')"
  then show "ESLintParser_parse_violations cwd output = Inr []"
    unfolding ESLintParser_parse_violations_def by (rule ESLintParser_loop_headers_only)
next
  assume "\<forall>l\<in>set (splitlines (strip output)). \<not> startswith l (u '' '')"
  then show "StylelintParser_parse_violations cwd output = Inr []"
    unfolding StylelintParser_parse_violations_def by (rule StylelintParser_loop_headers_only)
qed

lemma ESLintParser_one_violation:
  "ESLintParser_parse_violations (u ''/repo'')
     (u ''file.js'' @ [10] @ u ''  1:1  error  msg  rule'') =
   Inr [(PStr (u ''file.js''),
         [\<lparr>line = PInt 1, column = PInt 1, code = PStr (u ''rule''),
           message = PStr (u ''msg'')\<rparr>])]"
  by (simp add: ESLintParser_parse_violations_def violation_line_def eslint_regex_def
      str_eval path_eval re_eval dict_eval)

lemma StylelintParser_one_violation:
  "StylelintParser_parse_violations (u ''/repo'')
     (u ''file.scss'' @ [10] @ u ''  13:1  '' @ [10006] @ u ''  msg  rule'') =
   Inr [(PStr (u ''file.scss''),
         [\<lparr>line = PInt 13, column = PInt 1, code = PStr (u ''rule''),
           message = PStr (u ''msg'')\<rparr>])]"
  by (simp add: StylelintParser_parse_violations_def violation_line_def stylelint_regex_def
      str_eval path_eval re_eval dict_eval)

theorem indented_block_no_empty_entry_witness:
  "ESLintParser_parse_violations (u ''/repo'') (u ''file.js'') = Inr [] \<and>
   StylelintParser_parse_violations (u ''/repo'') (u ''file.js'') = Inr [] \<and>
   [] \<notin> snd ` set [(PStr (u ''file.js''),
         [\<lparr>line = PInt 1, column = PInt 1, code = PStr (u ''rule''),
           message = PStr (u ''msg'')\<rparr>])]"
proof -
  have l: "splitlines (strip (u ''file.js'')) = [u ''file.js'']"
    by (simp add: str_eval)
  have "\<forall>l\<in>set (splitlines (strip (u ''file.js''))). \<not> startswith l (u '' '')"
    unfolding l by (simp add: str_eval)
  with indented_block_no_empty_entry [of "u ''/repo''" "u ''file.js''"]
  have "ESLintParser_parse_violations (u ''/repo'') (u ''file.js'') = Inr [] \<and>
        StylelintParser_parse_violations (u ''/repo'') (u ''file.js'') = Inr []"
    by blast
  moreover from indented_block_no_empty_entry
      [of "u ''/repo''" "u ''file.js'' @ [10] @ u ''  1:1  error  msg  rule''"]
    ESLintParser_one_violation
  have "[] \<notin> snd ` set [(PStr (u ''file.js''),
         [\<lparr>line = PInt 1, column = PInt 1, code = PStr (u ''rule''),
           message = PStr (u ''msg'')\<rparr>])]"
    by blast
  ultimately show ?thesis by blast
qed

text \<open>
  The claim C2 itself fails: for the output of the one header line \<^verbatim>\<open>file.js\<close> no parser
  returns a mapping with an entry for that path.
\<close>

theorem header_without_violations_counterexample:
  "\<not> (\<exists>d. ESLintParser_parse_violations (u ''/repo'') (u ''file.js'') = Inr d \<and>
           dict_get d (PStr (u ''file.js'')) = Some []) \<and>
   \<not> (\<exists>d. StylelintParser_parse_violations (u ''/repo'') (u ''file.js'') = Inr d \<and>
           dict_get d (PStr (u ''file.js'')) = Some [])"
proof -
  have "ESLintParser_parse_violations (u ''/repo'') (u ''file.js'') = Inr []"
    by (simp add: ESLintParser_parse_violations_def str_eval path_eval)
  moreover have "StylelintParser_parse_violations (u ''/repo'') (u ''file.js'') = Inr []"
    by (simp add: StylelintParser_parse_violations_def str_eval path_eval)
  ultimately show ?thesis by (simp add: dict_get_def)
qed

text \<open>
  C3. A \<^verbatim>\<open>LineRegexParser\<close> skips a line that its pattern does not match.
\<close>

lemma LineRegexParser_skips:
  "re_match regex (strip ln) = None \<Longrightarrow>
   LineRegexParser_loop regex cwd d (ln # lns) = LineRegexParser_loop regex cwd d lns"
  by simp

text \<open>
  C3 for the indented-block parsers: an indented line that the pattern does not match is
  not skipped. \<^verbatim>\<open>re.match\<close> returns \<^verbatim>\<open>None\<close>, the source calls \<^verbatim>\<open>match.group\<close> on it
  without the test that \<^verbatim>\<open>LineRegexParser\<close> makes, and the parse ends in an
  \<^verbatim>\<open>AttributeError\<close>.
\<close>

theorem indented_block_nonmatching_line_raises:
  "ESLintParser_parse_violations (u ''/repo'') (u ''file.js'' @ [10] @ u ''  oops'') =
     Inl AttributeError \<and>
   StylelintParser_parse_violations (u ''/repo'') (u ''file.scss'' @ [10] @ u ''  oops'') =
     Inl AttributeError"
proof
  show "ESLintParser_parse_violations (u ''/repo'') (u ''file.js'' @ [10] @ u ''  oops'') =
     Inl AttributeError"
    by (simp add: ESLintParser_parse_violations_def violation_line_def eslint_regex_def
        str_eval path_eval re_eval)
  show "StylelintParser_parse_violations (u ''/repo'') (u ''file.scss'' @ [10] @ u ''  oops'') =
     Inl AttributeError"
    by (simp add: StylelintParser_parse_violations_def violation_line_def stylelint_regex_def
        str_eval path_eval re_eval)
qed

section \<open>The terminator line of ESLintParser\<close>

lemma lstrip_append_nonspace: "\<not> isspace y \<Longrightarrow> lstrip (a @ y # x) = lstrip a @ y # x"
  by (simp add: lstrip_def dropWhile_append3)

lemma rstrip_append_nonspace: "\<not> isspace y \<Longrightarrow> rstrip (a @ y # x) = a @ y # rstrip x"
  by (simp add: rstrip_def dropWhile_append3)

lemma strip_append_nonspace: "\<not> isspace y \<Longrightarrow> strip (a @ y # x) = lstrip a @ y # rstrip x"
  by (simp add: strip_def lstrip_append_nonspace rstrip_append_nonspace)

lemma last_dropWhile: "dropWhile P xs \<noteq> [] \<Longrightarrow> last (dropWhile P xs) = last xs"
  by (induction xs) (auto split: if_splits)

lemma lstrip_closed:
  "a = [] \<or> islinebreak (last a) \<Longrightarrow> lstrip a = [] \<or> islinebreak (last (lstrip a))"
  unfolding lstrip_def using last_dropWhile[of isspace a] by (cases "dropWhile isspace a = []") auto

lemma splitlines_from_append:
  "a \<noteq> [] \<Longrightarrow> islinebreak (last a) \<Longrightarrow> y \<noteq> 10 \<Longrightarrow>
   splitlines_from cur (a @ y # x) = splitlines_from cur a @ splitlines_from [] (y # x)"
proof (induction cur a rule: splitlines_from.induct)
  case (1 cur)
  then show ?case by simp
next
  case (2 cur c)
  then show ?case by simp
next
  case (3 cur c d s)
  show ?case
  proof (cases "s = []")
    case True
    then show ?thesis using 3 by (cases "c = 13 \<and> d = 10") auto
  next
    case False
    then have l: "islinebreak (last s)" "islinebreak (last (d # s))" using "3.prems" by auto
    show ?thesis
    proof (cases "c = 13 \<and> d = 10")
      case True
      then show ?thesis using "3.IH"(1)[OF True False l(1) "3.prems"(3)] by simp
    next
      case nc: False
      show ?thesis
      proof (cases "islinebreak c")
        case True
        then show ?thesis using nc "3.IH"(2)[OF nc True _ l(2) "3.prems"(3)] by auto
      next
        case False
        then show ?thesis using nc "3.IH"(3)[OF nc False _ l(2) "3.prems"(3)] by auto
      qed
    qed
  qed
qed

lemma splitlines_append:
  "a = [] \<or> islinebreak (last a) \<Longrightarrow> y \<noteq> 10 \<Longrightarrow>
   splitlines (a @ y # x) = splitlines a @ splitlines (y # x)"
  unfolding splitlines_def using splitlines_from_append[of a y "[]" x] by (cases "a = []") auto

lemma splitlines_from_cur:
  "cur \<noteq> [] \<Longrightarrow> \<exists>l ls. splitlines_from cur s = (cur @ l) # ls"
proof (induction cur s rule: splitlines_from.induct)
  case (1 cur)
  then show ?case by simp
next
  case (2 cur c)
  then show ?case by simp
next
  case (3 cur c d s)
  show ?case
  proof (cases "(c = 13 \<and> d = 10) \<or> islinebreak c")
    case True
    then show ?thesis by auto
  next
    case False
    then obtain l ls where "splitlines_from (cur @ [c]) (d # s) = ((cur @ [c]) @ l) # ls"
      using "3.IH"(3) by blast
    then have "splitlines_from cur (c # d # s) = (cur @ (c # l)) # ls"
      using False by simp
    then show ?thesis by blast
  qed
qed

lemma splitlines_first:
  assumes "\<not> islinebreak y"
  shows "\<exists>l ls. splitlines (y # x) = (y # l) # ls"
proof (cases x)
  case Nil
  then show ?thesis using assms by (simp add: splitlines_def)
next
  case (Cons d s)
  have "splitlines (y # x) = splitlines_from [y] x"
    using assms Cons by (auto simp: splitlines_def islinebreak_def)
  then show ?thesis using splitlines_from_cur[of "[y]" x] by auto
qed

lemma ESLintParser_loop_terminator:
  "startswith l [10006] \<Longrightarrow> startswith l' [10006] \<Longrightarrow>
   ESLintParser_loop cwd cf d (pre @ l # ls) = ESLintParser_loop cwd cf d (pre @ l' # ls')"
proof (induction pre arbitrary: cf d)
  case Nil
  have "\<not> startswith l (u '' '')" "\<not> startswith l' (u '' '')"
    using Nil by (cases l; cases l'; simp add: startswith_def u_def)+
  then show ?case using Nil by simp
next
  case (Cons p pre)
  then show ?case by (simp split: sum.splits)
qed


text \<open>
  C6. Let a line of the output begin with the glyph U+2716: the text \<open>t\<close> from the glyph
  on stands at the very beginning or right after a line break. Whatever follows \<open>t\<close>, the
  result is that of the output cut after \<open>t\<close>, an error before the terminator included.
\<close>

theorem ESLintParser_terminator:
  assumes "a = [] \<or> islinebreak (last a)" and "startswith t [10006]"
  shows "ESLintParser_parse_violations cwd (a @ t @ rest) =
         ESLintParser_parse_violations cwd (a @ t)"
proof -
  obtain t' where t: "t = 10006 # t'"
    using assms(2) by (cases t) (auto simp: startswith_def)
  have key: "\<exists>l ls. splitlines (strip (a @ 10006 # x)) = splitlines (lstrip a) @ l # ls \<and>
               startswith l [10006]" for x
  proof -
    have ns: "\<not> isspace 10006" by (simp add: isspace_def)
    have nl: "\<not> islinebreak 10006" by (simp add: islinebreak_def)
    have "strip (a @ 10006 # x) = lstrip a @ 10006 # rstrip x"
      by (rule strip_append_nonspace[OF ns])
    moreover have "splitlines (lstrip a @ 10006 # rstrip x) =
        splitlines (lstrip a) @ splitlines (10006 # rstrip x)"
      by (rule splitlines_append[OF lstrip_closed[OF assms(1)]]) simp
    moreover obtain l ls where "splitlines (10006 # rstrip x) = (10006 # l) # ls"
      using splitlines_first[OF nl] by blast
    ultimately show ?thesis by (simp add: startswith_def)
  qed
  obtain l1 ls1 where 1: "splitlines (strip (a @ 10006 # t' @ rest)) = splitlines (lstrip a) @ l1 # ls1"
      "startswith l1 [10006]"
    using key[of "t' @ rest"] by blast
  obtain l2 ls2 where 2: "splitlines (strip (a @ 10006 # t')) = splitlines (lstrip a) @ l2 # ls2"
      "startswith l2 [10006]"
    using key[of t'] by blast
  show ?thesis
    unfolding t ESLintParser_parse_violations_def
    using ESLintParser_loop_terminator[OF 1(2) 2(2)] by (simp add: 1(1) 2(1))
qed

theorem ESLintParser_terminator_witness:
  "ESLintParser_parse_violations (u ''/repo'')
     ((u ''file.js'' @ [10] @ u ''  1:1 error msg rule'' @ [10]) @
      ([10006] @ u '' 1 problem'') @ ([10] @ u ''extra garbage'')) =
   Inr [(PStr (u ''file.js''),
         [\<lparr>line = PInt 1, column = PInt 1, code = PStr (u ''rule''),
           message = PStr (u ''msg'')\<rparr>])]"
proof -
  have a: "u ''file.js'' @ [10] @ u ''  1:1 error msg rule'' @ [10] = [] \<or>
           islinebreak (last (u ''file.js'' @ [10] @ u ''  1:1 error msg rule'' @ [10]))"
    by (simp add: islinebreak_def)
  have t: "startswith ([10006] @ u '' 1 problem'') [10006]"
    by (simp add: startswith_def)
  have "ESLintParser_parse_violations (u ''/repo'')
     ((u ''file.js'' @ [10] @ u ''  1:1 error msg rule'' @ [10]) @ ([10006] @ u '' 1 problem'')) =
   Inr [(PStr (u ''file.js''),
         [\<lparr>line = PInt 1, column = PInt 1, code = PStr (u ''rule''),
           message = PStr (u ''msg'')\<rparr>])]"
    by (simp add: ESLintParser_parse_violations_def violation_line_def eslint_regex_def
        str_eval path_eval re_eval dict_eval)
  then show ?thesis
    by (simp only: ESLintParser_terminator[OF a t])
qed

section \<open>The registry\<close>

lemma PARSERS_keys_distinct: "distinct (map fst PARSERS)"
  by (simp add: PARSERS_def u_def)

text \<open>
  C9. A key that is not a key of the table resolves to the configuration error, and so
  does the extraction, whatever the output is and whatever the extractors would do with
  it. A key resolves to an extractor exactly when the table pairs that very string with
  it; so \<^verbatim>\<open>flake8\<close> resolves and \<^verbatim>\<open>Flake8\<close> does not.
\<close>

theorem resolve_unknown_key:
  "(format_key \<notin> fst ` set PARSERS \<longrightarrow>
      resolve format_key = Inl ConfigurationError \<and>
      resolve_and_parse parse format_key output = Inl ConfigurationError) \<and>
   (resolve format_key = Inr extractor \<longleftrightarrow> (format_key, extractor) \<in> set PARSERS)"
proof (intro conjI impI)
  assume "format_key \<notin> fst ` set PARSERS"
  then have "map_of PARSERS format_key = None"
    by (simp add: map_of_eq_None_iff)
  then show "resolve format_key = Inl ConfigurationError"
    by (simp add: resolve_def)
  then show "resolve_and_parse parse format_key output = Inl ConfigurationError"
    by (simp add: resolve_and_parse_def)
next
  have "map_of PARSERS format_key = Some extractor \<longleftrightarrow> (format_key, extractor) \<in> set PARSERS"
    using PARSERS_keys_distinct by (rule map_of_eq_Some_iff)
  then show "resolve format_key = Inr extractor \<longleftrightarrow> (format_key, extractor) \<in> set PARSERS"
    by (auto simp: resolve_def split: option.splits)
qed

theorem resolve_unknown_key_witness:
  "resolve (u ''Flake8'') = Inl ConfigurationError \<and>
   resolve_and_parse (\<lambda>extractor output. Inr output) (u ''Flake8'') (u ''a.py:1:1: E1 x'') =
     Inl ConfigurationError \<and>
   resolve (u ''flake8'') = Inr DEFAULT_PARSER"
proof -
  have "u ''Flake8'' \<notin> fst ` set PARSERS"
    by (simp add: PARSERS_def u_def)
  moreover have "(u ''flake8'', DEFAULT_PARSER) \<in> set PARSERS"
    by (simp add: PARSERS_def)
  ultimately show ?thesis
    using resolve_unknown_key [of "u ''Flake8''" "\<lambda>extractor output. Inr output" "u ''a.py:1:1: E1 x''"]
      resolve_unknown_key [of "u ''flake8''" _ _ DEFAULT_PARSER]
    by blast
qed

section \<open>The JSON parsers\<close>

lemma normalize_normalized: "normalize_path cwd (PStr p) = Inr (normalized cwd p)"
  using normalize_path_PStr[of cwd p] by (auto simp: normalized_def)

lemma CfnNag_line_numbers_ok:
  "getitem info (u ''id'') = Inr vid \<Longrightarrow> getitem info (u ''message'') = Inr vmessage \<Longrightarrow>
   CfnNag_line_numbers info fv lns =
     Inr (fv @ map (\<lambda>l. \<lparr>line = l, column = PInt 0, code = vid, message = vmessage\<rparr>) lns)"
  by (induction lns arbitrary: fv) simp_all

lemma CfnNag_violations_ok:
  "list_all2 cfn_record infos recs \<Longrightarrow>
   CfnNag_violations fv infos =
     Inr (fv @ concat (map (\<lambda>(vid, vmessage, lns).
            map (\<lambda>l. \<lparr>line = l, column = PInt 0, code = vid, message = vmessage\<rparr>) lns) recs))"
proof (induction infos recs arbitrary: fv rule: list_all2_induct)
  case Nil
  then show ?case by simp
next
  case (Cons info infos r recs)
  obtain vid vmessage lns where rec: "r = (vid, vmessage, lns)" by (cases r)
  from Cons.hyps(1) have g: "getitem info (u ''id'') = Inr vid"
      "getitem info (u ''message'') = Inr vmessage"
      "getitem info (u ''line_numbers'') = Inr (PList lns)"
    by (simp_all add: cfn_record_def rec)
  show ?case
    using Cons.IH by (simp add: g(3) py_iter_def CfnNag_line_numbers_ok[OF g(1,2)] rec)
qed

lemma CfnNag_files_ok:
  "list_all2 cfn_file files frecs \<Longrightarrow>
   CfnNag_files cwd d files =
     Inr (foldl (\<lambda>d (filename, recs).
            dict_setitem d (PStr (normalized cwd filename))
              (concat (map (\<lambda>(vid, vmessage, lns).
                 map (\<lambda>l. \<lparr>line = l, column = PInt 0, code = vid, message = vmessage\<rparr>) lns) recs)))
          d frecs)"
proof (induction files frecs arbitrary: d rule: list_all2_induct)
  case Nil
  then show ?case by simp
next
  case (Cons f files frec frecs)
  obtain filename recs where frec: "frec = (filename, recs)" by (cases frec)
  from Cons.hyps(1) obtain file_results infos where g:
      "getitem f (u ''filename'') = Inr (PStr filename)"
      "getitem f (u ''file_results'') = Inr file_results"
      "getitem file_results (u ''violations'') = Inr (PList infos)"
      "list_all2 cfn_record infos recs"
    by (auto simp: cfn_file_def frec)
  show ?case
    using Cons.IH
    by (simp add: g(1,2,3) py_iter_def CfnNag_violations_ok[OF g(4)] normalize_normalized frec)
qed

lemma CfnNagParser_ok:
  assumes "json_loads output = Inr (PList files)" and "list_all2 cfn_file files frecs"
  shows "CfnNagParser_parse_violations cwd output =
     Inr (foldl (\<lambda>d (filename, recs).
            dict_setitem d (PStr (normalized cwd filename))
              (concat (map (\<lambda>(vid, vmessage, lns).
                 map (\<lambda>l. \<lparr>line = l, column = PInt 0, code = vid, message = vmessage\<rparr>) lns) recs)))
          [] frecs)"
  by (simp add: CfnNagParser_parse_violations_def assms(1) py_iter_def CfnNag_files_ok[OF assms(2)])

lemma map_of_dict_setitem: "map_of (dict_setitem d k v) = (map_of d)(k \<mapsto> v)"
  by (induction d) (auto simp: fun_eq_iff)

lemma keys_dict_setitem: "fst ` set (dict_setitem d k v) = insert k (fst ` set d)"
proof (induction d)
  case Nil
  then show ?case by simp
next
  case (Cons a d)
  obtain k' v' where a: "a = (k', v')" by (cases a)
  show ?case
  proof (cases "k' = k")
    case True
    then show ?thesis by (simp add: a)
  next
    case False
    then show ?thesis using Cons by (auto simp: a)
  qed
qed

lemma keys_foldl_setitem:
  "fst ` set (foldl (\<lambda>d x. dict_setitem d (kf x) (vf x)) d xs) = fst ` set d \<union> kf ` set xs"
  by (induction xs arbitrary: d) (auto simp: keys_dict_setitem)

lemma map_of_foldl_other:
  "k \<notin> kf ` set xs \<Longrightarrow>
   map_of (foldl (\<lambda>d x. dict_setitem d (kf x) (vf x)) d xs) k = map_of d k"
  by (induction xs arbitrary: d) (auto simp: map_of_dict_setitem)

lemma map_of_foldl_last:
  "kf x \<notin> kf ` set post \<Longrightarrow>
   map_of (foldl (\<lambda>d x. dict_setitem d (kf x) (vf x)) d (pre @ x # post)) (kf x) = Some (vf x)"
  by (simp add: map_of_foldl_other map_of_dict_setitem)


lemma foldl_case_prod:
  "foldl (\<lambda>d (a, b). g d a b) = foldl (\<lambda>d x. g d (fst x) (snd x))"
  by (simp add: case_prod_unfold)

text \<open>
  C7, as the source has it. For well-formed input, the list built for a file record is the
  concatenation of what its violation records give, and a record with its id, message and
  line numbers gives one Violation for each line number, in order, with that line, column 0
  and the record's id and message. The list is stored under the normalised file name by
  assignment: it is the entry of the file in the result when no later file record has the
  same normalised name.
\<close>

theorem CfnNagParser_line_expansion:
  assumes "json_loads output = Inr (PList files)" and "list_all2 cfn_file files frecs"
  shows "(\<forall>infos recs. list_all2 cfn_record infos recs \<longrightarrow>
            CfnNag_violations [] infos =
              Inr (concat (map (\<lambda>(vid, vmessage, lns).
                     map (\<lambda>l. \<lparr>line = l, column = PInt 0, code = vid, message = vmessage\<rparr>) lns)
                   recs))) \<and>
         (\<exists>d. CfnNagParser_parse_violations cwd output = Inr d \<and>
            (\<forall>pre filename recs post.
               frecs = pre @ (filename, recs) # post \<and>
               normalized cwd filename \<notin> (\<lambda>(n, r). normalized cwd n) ` set post \<longrightarrow>
               normalize_path cwd (PStr filename) = Inr (normalized cwd filename) \<and>
               dict_get d (PStr (normalized cwd filename)) =
                 Some (concat (map (\<lambda>(vid, vmessage, lns).
                         map (\<lambda>l. \<lparr>line = l, column = PInt 0, code = vid, message = vmessage\<rparr>) lns)
                       recs))))"
proof (intro conjI allI impI)
  fix infos recs
  assume "list_all2 cfn_record infos recs"
  then show "CfnNag_violations [] infos =
              Inr (concat (map (\<lambda>(vid, vmessage, lns).
                     map (\<lambda>l. \<lparr>line = l, column = PInt 0, code = vid, message = vmessage\<rparr>) lns)
                   recs))"
    using CfnNag_violations_ok[of infos recs "[]"] by simp
next
  let ?ex = "\<lambda>recs. concat (map (\<lambda>(vid, vmessage, lns).
                 map (\<lambda>l. \<lparr>line = l, column = PInt 0, code = vid, message = vmessage\<rparr>) lns) recs)"
  let ?kf = "\<lambda>x. PStr (normalized cwd (fst x))"
  let ?vf = "\<lambda>x. ?ex (snd x)"
  let ?d = "foldl (\<lambda>d x. dict_setitem d (?kf x) (?vf x)) [] frecs"
  have p: "CfnNagParser_parse_violations cwd output = Inr ?d"
    using CfnNagParser_ok[OF assms, of cwd] by (simp add: foldl_case_prod)
  have "\<forall>pre filename recs post.
               frecs = pre @ (filename, recs) # post \<and>
               normalized cwd filename \<notin> (\<lambda>(n, r). normalized cwd n) ` set post \<longrightarrow>
               normalize_path cwd (PStr filename) = Inr (normalized cwd filename) \<and>
               dict_get ?d (PStr (normalized cwd filename)) = Some (?ex recs)"
  proof (intro allI impI)
    fix pre filename recs post
    assume a: "frecs = pre @ (filename, recs) # post \<and>
               normalized cwd filename \<notin> (\<lambda>(n, r). normalized cwd n) ` set post"
    then have "?kf (filename, recs) \<notin> ?kf ` set post" by (auto simp: case_prod_unfold)
    from map_of_foldl_last[of ?kf "(filename, recs)" post ?vf "[]" pre, OF this]
    show "normalize_path cwd (PStr filename) = Inr (normalized cwd filename) \<and>
          dict_get ?d (PStr (normalized cwd filename)) = Some (?ex recs)"
      using a by (simp add: dict_get_def normalize_normalized)
  qed
  with p show "\<exists>d. CfnNagParser_parse_violations cwd output = Inr d \<and>
            (\<forall>pre filename recs post.
               frecs = pre @ (filename, recs) # post \<and>
               normalized cwd filename \<notin> (\<lambda>(n, r). normalized cwd n) ` set post \<longrightarrow>
               normalize_path cwd (PStr filename) = Inr (normalized cwd filename) \<and>
               dict_get d (PStr (normalized cwd filename)) = Some (?ex recs))"
    by blast
qed


lemma cfn_nag_sample:
  "json_loads (u ''[{\"filename\":\"a.yml\",\"file_results\":{\"violations\":[{\"id\":\"W1\",\"message\":\"m\",\"line_numbers\":[3,7]}]}}]'') =
     Inr (PList [PDict [(u ''filename'', PStr (u ''a.yml'')),
                        (u ''file_results'',
                         PDict [(u ''violations'',
                                 PList [PDict [(u ''id'', PStr (u ''W1'')),
                                               (u ''message'', PStr (u ''m'')),
                                               (u ''line_numbers'', PList [PInt 3, PInt 7])]])])]])"
  by (simp add: json_eval u_def startswith_def)

theorem CfnNagParser_line_expansion_witness:
  "\<exists>d. CfnNagParser_parse_violations (u ''/repo'') (u ''[{\"filename\":\"a.yml\",\"file_results\":{\"violations\":[{\"id\":\"W1\",\"message\":\"m\",\"line_numbers\":[3,7]}]}}]'') = Inr d \<and>
       dict_get d (PStr (u ''a.yml'')) =
         Some [\<lparr>line = PInt 3, column = PInt 0, code = PStr (u ''W1''), message = PStr (u ''m'')\<rparr>,
               \<lparr>line = PInt 7, column = PInt 0, code = PStr (u ''W1''), message = PStr (u ''m'')\<rparr>]"
proof -
  let ?files = "[PDict [(u ''filename'', PStr (u ''a.yml'')),
                        (u ''file_results'',
                         PDict [(u ''violations'',
                                 PList [PDict [(u ''id'', PStr (u ''W1'')),
                                               (u ''message'', PStr (u ''m'')),
                                               (u ''line_numbers'', PList [PInt 3, PInt 7])]])])]]"
  let ?frecs = "[(u ''a.yml'', [(PStr (u ''W1''), PStr (u ''m''), [PInt 3, PInt 7])])]"
  have wf: "list_all2 cfn_file ?files ?frecs"
    by (simp add: cfn_file_def cfn_record_def getitem_def u_def)
  have n: "normalized (u ''/repo'') (u ''a.yml'') = u ''a.yml''"
    by (simp add: normalized_def u_def path_eval startswith_def endswith_def)
  from CfnNagParser_line_expansion[OF cfn_nag_sample wf, of "u ''/repo''"]
  obtain d where d: "CfnNagParser_parse_violations (u ''/repo'') (u ''[{\"filename\":\"a.yml\",\"file_results\":{\"violations\":[{\"id\":\"W1\",\"message\":\"m\",\"line_numbers\":[3,7]}]}}]'') = Inr d"
    and l: "\<forall>pre filename recs post.
               ?frecs = pre @ (filename, recs) # post \<and>
               normalized (u ''/repo'') filename \<notin> (\<lambda>(n, r). normalized (u ''/repo'') n) ` set post \<longrightarrow>
               normalize_path (u ''/repo'') (PStr filename) = Inr (normalized (u ''/repo'') filename) \<and>
               dict_get d (PStr (normalized (u ''/repo'') filename)) =
                 Some (concat (map (\<lambda>(vid, vmessage, lns).
                         map (\<lambda>l. \<lparr>line = l, column = PInt 0, code = vid, message = vmessage\<rparr>) lns)
                       recs))"
    by blast
  from l[rule_format, of "[]" "u ''a.yml''" "[(PStr (u ''W1''), PStr (u ''m''), [PInt 3, PInt 7])]" "[]"]
  have "dict_get d (PStr (u ''a.yml'')) =
         Some [\<lparr>line = PInt 3, column = PInt 0, code = PStr (u ''W1''), message = PStr (u ''m'')\<rparr>,
               \<lparr>line = PInt 7, column = PInt 0, code = PStr (u ''W1''), message = PStr (u ''m'')\<rparr>]"
    by (simp add: n)
  with d show ?thesis by blast
qed

text \<open>
  The claim C7 itself fails where a later file record has the same normalised name: the
  first record of this input carries one line number, and the list of \<^verbatim>\<open>a.yml\<close> in the
  result has no Violation.
\<close>

theorem CfnNagParser_replaced_record_counterexample:
  "CfnNagParser_parse_violations (u ''/repo'') (u ''[{\"filename\":\"a.yml\",\"file_results\":{\"violations\":[{\"id\":\"W1\",\"message\":\"m\",\"line_numbers\":[3]}]}},{\"filename\":\"./a.yml\",\"file_results\":{\"violations\":[]}}]'') = Inr [(PStr (u ''a.yml''), [])]"
  by (simp add: CfnNagParser_parse_violations_def json_eval u_def startswith_def endswith_def
      path_eval)

text \<open>
  C10. For well-formed input the keys of the result are the normalised names of all the
  file records, one with no violation included; the value of a key is the list of the
  last file record with that normalised name (the empty list when that record has no
  violation), so a later record replaces an earlier one and nothing is appended.
\<close>

theorem CfnNagParser_file_keys:
  assumes "json_loads output = Inr (PList files)" and "list_all2 cfn_file files frecs"
  shows "\<exists>d. CfnNagParser_parse_violations cwd output = Inr d \<and>
           fst ` set d = (\<lambda>(filename, recs). PStr (normalized cwd filename)) ` set frecs \<and>
           (\<forall>filename recs. (filename, recs) \<in> set frecs \<longrightarrow>
              normalize_path cwd (PStr filename) = Inr (normalized cwd filename)) \<and>
           (\<forall>pre filename post.
              frecs = pre @ (filename, []) # post \<and>
              normalized cwd filename \<notin> (\<lambda>(n, r). normalized cwd n) ` set post \<longrightarrow>
              dict_get d (PStr (normalized cwd filename)) = Some []) \<and>
           (\<forall>pre filename recs mid filename' recs' post.
              frecs = pre @ (filename, recs) # mid @ (filename', recs') # post \<and>
              normalized cwd filename' = normalized cwd filename \<and>
              normalized cwd filename \<notin> (\<lambda>(n, r). normalized cwd n) ` set post \<longrightarrow>
              dict_get d (PStr (normalized cwd filename)) =
                Some (concat (map (\<lambda>(vid, vmessage, lns).
                        map (\<lambda>l. \<lparr>line = l, column = PInt 0, code = vid, message = vmessage\<rparr>) lns)
                      recs')))"
proof -
  let ?ex = "\<lambda>recs. concat (map (\<lambda>(vid, vmessage, lns).
                 map (\<lambda>l. \<lparr>line = l, column = PInt 0, code = vid, message = vmessage\<rparr>) lns) recs)"
  let ?kf = "\<lambda>x. PStr (normalized cwd (fst x))"
  let ?vf = "\<lambda>x. ?ex (snd x)"
  let ?d = "foldl (\<lambda>d x. dict_setitem d (?kf x) (?vf x)) [] frecs"
  have p: "CfnNagParser_parse_violations cwd output = Inr ?d"
    using CfnNagParser_ok[OF assms, of cwd] by (simp add: foldl_case_prod)
  have k: "fst ` set ?d = (\<lambda>(filename, recs). PStr (normalized cwd filename)) ` set frecs"
    by (simp add: keys_foldl_setitem case_prod_unfold)
  have last: "dict_get ?d (PStr (normalized cwd filename)) = Some (?ex recs)"
    if "frecs = pre @ (filename, recs) # post"
      and "normalized cwd filename \<notin> (\<lambda>(n, r). normalized cwd n) ` set post"
    for pre filename recs post
  proof -
    from that(2) have "?kf (filename, recs) \<notin> ?kf ` set post" by (auto simp: case_prod_unfold)
    from map_of_foldl_last[of ?kf "(filename, recs)" post ?vf "[]" pre, OF this]
    show ?thesis using that(1) by (simp add: dict_get_def)
  qed
  have z: "\<forall>pre filename post.
              frecs = pre @ (filename, []) # post \<and>
              normalized cwd filename \<notin> (\<lambda>(n, r). normalized cwd n) ` set post \<longrightarrow>
              dict_get ?d (PStr (normalized cwd filename)) = Some []"
  proof (intro allI impI)
    fix pre filename post
    assume a: "frecs = pre @ (filename, []) # post \<and>
              normalized cwd filename \<notin> (\<lambda>(n, r). normalized cwd n) ` set post"
    from last[of pre filename "[]" post] a
    show "dict_get ?d (PStr (normalized cwd filename)) = Some []" by simp
  qed
  have r: "\<forall>pre filename recs mid filename' recs' post.
              frecs = pre @ (filename, recs) # mid @ (filename', recs') # post \<and>
              normalized cwd filename' = normalized cwd filename \<and>
              normalized cwd filename \<notin> (\<lambda>(n, r). normalized cwd n) ` set post \<longrightarrow>
              dict_get ?d (PStr (normalized cwd filename)) = Some (?ex recs')"
  proof (intro allI impI)
    fix pre filename recs mid filename' recs' post
    assume a: "frecs = pre @ (filename, recs) # mid @ (filename', recs') # post \<and>
              normalized cwd filename' = normalized cwd filename \<and>
              normalized cwd filename \<notin> (\<lambda>(n, r). normalized cwd n) ` set post"
    then have "frecs = (pre @ (filename, recs) # mid) @ (filename', recs') # post" by simp
    from last[OF this] a show "dict_get ?d (PStr (normalized cwd filename)) = Some (?ex recs')"
      by simp
  qed
  have n: "\<forall>filename recs. (filename, recs) \<in> set frecs \<longrightarrow>
              normalize_path cwd (PStr filename) = Inr (normalized cwd filename)"
    by (simp add: normalize_normalized)
  show ?thesis
    by (rule exI[of _ ?d]) (intro conjI p k n z r)
qed

theorem CfnNagParser_file_keys_witness:
  "\<exists>d. CfnNagParser_parse_violations (u ''/repo'') (u ''[{\"filename\":\"a.yml\",\"file_results\":{\"violations\":[{\"id\":\"W1\",\"message\":\"m\",\"line_numbers\":[3]}]}},{\"filename\":\"./a.yml\",\"file_results\":{\"violations\":[]}}]'') = Inr d \<and>
       fst ` set d = {PStr (u ''a.yml'')} \<and>
       dict_get d (PStr (u ''a.yml'')) = Some []"
proof -
  let ?files = "[PDict [(u ''filename'', PStr (u ''a.yml'')),
                        (u ''file_results'',
                         PDict [(u ''violations'',
                                 PList [PDict [(u ''id'', PStr (u ''W1'')),
                                               (u ''message'', PStr (u ''m'')),
                                               (u ''line_numbers'', PList [PInt 3])]])])],
                 PDict [(u ''filename'', PStr (u ''./a.yml'')),
                        (u ''file_results'', PDict [(u ''violations'', PList [])])]]"
  let ?frecs = "[(u ''a.yml'', [(PStr (u ''W1''), PStr (u ''m''), [PInt 3])]), (u ''./a.yml'', [])]"
  have j: "json_loads (u ''[{\"filename\":\"a.yml\",\"file_results\":{\"violations\":[{\"id\":\"W1\",\"message\":\"m\",\"line_numbers\":[3]}]}},{\"filename\":\"./a.yml\",\"file_results\":{\"violations\":[]}}]'') = Inr (PList ?files)"
    by (simp add: json_eval u_def startswith_def)
  have wf: "list_all2 cfn_file ?files ?frecs"
    by (simp add: cfn_file_def cfn_record_def getitem_def u_def)
  have n: "normalized (u ''/repo'') (u ''a.yml'') = u ''a.yml''"
      "normalized (u ''/repo'') (u ''./a.yml'') = u ''a.yml''"
    by (simp_all add: normalized_def u_def path_eval startswith_def endswith_def)
  from CfnNagParser_file_keys[OF j wf, of "u ''/repo''"]
  obtain d where d: "CfnNagParser_parse_violations (u ''/repo'') (u ''[{\"filename\":\"a.yml\",\"file_results\":{\"violations\":[{\"id\":\"W1\",\"message\":\"m\",\"line_numbers\":[3]}]}},{\"filename\":\"./a.yml\",\"file_results\":{\"violations\":[]}}]'') = Inr d"
    and k: "fst ` set d = (\<lambda>(filename, recs). PStr (normalized (u ''/repo'') filename)) ` set ?frecs"
    and z: "\<forall>pre filename post.
              ?frecs = pre @ (filename, []) # post \<and>
              normalized (u ''/repo'') filename \<notin> (\<lambda>(n, r). normalized (u ''/repo'') n) ` set post \<longrightarrow>
              dict_get d (PStr (normalized (u ''/repo'') filename)) = Some []"
    by blast
  from k have "fst ` set d = {PStr (u ''a.yml'')}" by (simp add: n)
  moreover from z[rule_format, of "[(u ''a.yml'', [(PStr (u ''W1''), PStr (u ''m''), [PInt 3])])]" "u ''./a.yml''" "[]"]
  have "dict_get d (PStr (u ''a.yml'')) = Some []" by (simp add: n)
  ultimately show ?thesis using d by blast
qed

text \<open>
  C1. \<^verbatim>\<open>CfnNagParser\<close> passes the output to \<^verbatim>\<open>json.loads\<close> as it is, and
  \<^verbatim>\<open>GitLeaksParser\<close> and \<^verbatim>\<open>HadolintParser\<close> test \<^verbatim>\<open>not output\<close> without stripping it
  first (as \<^verbatim>\<open>PylintJSONParser\<close> and \<^verbatim>\<open>BanditJSONParser\<close> do): the empty output makes the
  first raise, and an output of one space makes all three raise.
\<close>

theorem empty_output_raises:
  "CfnNagParser_parse_violations (u ''/repo'') [] = Inl JSONDecodeError \<and>
   CfnNagParser_parse_violations (u ''/repo'') (u '' '') = Inl JSONDecodeError \<and>
   GitLeaksParser_parse_violations (u ''/repo'') (u '' '') = Inl JSONDecodeError \<and>
   HadolintParser_parse_violations (u ''/repo'') (u '' '') = Inl JSONDecodeError"
  by (simp add: CfnNagParser_parse_violations_def GitLeaksParser_parse_violations_def
      HadolintParser_parse_violations_def json_eval u_def)

lemma empty_output_no_violations:
  "GitLeaksParser_parse_violations cwd [] = Inr [] \<and>
   HadolintParser_parse_violations cwd [] = Inr []"
  by (simp add: GitLeaksParser_parse_violations_def HadolintParser_parse_violations_def)

end
